theory Spec2Isabelle
  imports Complex_Main "HOL-Library.List_Lexorder"
begin

unbundle bit_operations_syntax

section \<open>Values shared by the ingestion and retrieval code\<close>

text \<open>
  A Python \<open>str\<close> is a sequence of Unicode code points; it is modelled as the list of
  those code points, so that slicing (\<open>chunk_text[:2000]\<close>), comparison (\<open>sorted\<close>) and
  the character classes of \<open>re\<close> count what Python counts. \<open>py\<close> writes a literal.
\<close>

type_synonym str = "nat list"

definition py :: "string \<Rightarrow> str" where
  "py s = map of_char s"

text \<open>The values a checkpoint record or a metadata dict holds (what \<open>json\<close> round-trips).\<close>

datatype json =
    JNull
  | JBool bool
  | JInt int
  | JStr str
  | JList "json list"
  | JDict "(str \<times> json) list"

text \<open>Every exception the modelled code can let escape.\<close>

datatype error =
    ValueError
  | UnicodeEncodeError
  | RuntimeError
  | FitzError
  | VisionError
  | EmbeddingError
  | PineconeError
  | SupabaseError
  | StoreUnreachable
  | RankerError

section \<open>State tracker (\<open>ingestion/state.py\<close>)\<close>

type_synonym entry = "str \<rightharpoonup> json"

text \<open>
  \<open>{"status": status, **(meta or {})}\<close>: the keys of \<open>meta\<close> are laid over the
  one-key dict, so a \<open>"status"\<close> key of \<open>meta\<close> wins over the argument.
\<close>

definition mark_entry :: "str \<Rightarrow> entry option \<Rightarrow> entry" where
  "mark_entry status meta =
     [py ''status'' \<mapsto> JStr status] ++ (case meta of None \<Rightarrow> Map.empty | Some m \<Rightarrow> m)"

section \<open>Sparse token hasher (\<open>IngestionPipeline._map_sparse_tokens\<close>)\<close>

text \<open>
  \<open>str.encode("utf-8")\<close>: one to four bytes per code point; a surrogate cannot be
  encoded and raises.
\<close>

definition utf8_char :: "nat \<Rightarrow> error + nat list" where
  "utf8_char c =
     (if c < 0x80 then Inr [c]
      else if c < 0x800 then Inr [0xC0 + c div 64, 0x80 + c mod 64]
      else if 0xD800 \<le> c \<and> c \<le> 0xDFFF then Inl UnicodeEncodeError
      else if c < 0x10000 then
        Inr [0xE0 + c div 4096, 0x80 + (c div 64) mod 64, 0x80 + c mod 64]
      else if c < 0x110000 then
        Inr [0xF0 + c div 262144, 0x80 + (c div 4096) mod 64,
             0x80 + (c div 64) mod 64, 0x80 + c mod 64]
      else Inl UnicodeEncodeError)"

fun encode_utf8 :: "str \<Rightarrow> error + nat list" where
  "encode_utf8 [] = Inr []"
| "encode_utf8 (c # cs) =
     (case utf8_char c of
        Inl e \<Rightarrow> Inl e
      | Inr bs \<Rightarrow> (case encode_utf8 cs of Inl e \<Rightarrow> Inl e | Inr rest \<Rightarrow> Inr (bs @ rest)))"

text \<open>
  \<open>zlib.crc32\<close>: the reflected CRC-32 (polynomial \<open>0xEDB88320\<close>), register preset to
  \<open>0xFFFFFFFF\<close> and complemented at the end. The register is a natural number here, so
  that its 32-bit range is a property to prove and not a consequence of a type.
\<close>

definition crc_shift :: "nat \<Rightarrow> nat" where
  "crc_shift crc = (if odd crc then (crc div 2) XOR 0xEDB88320 else crc div 2)"

definition crc_byte :: "nat \<Rightarrow> nat \<Rightarrow> nat" where
  "crc_byte crc b = (crc_shift ^^ 8) (crc XOR b)"

definition crc32 :: "nat list \<Rightarrow> nat" where
  "crc32 bs = foldl crc_byte 0xFFFFFFFF bs XOR 0xFFFFFFFF"

record 'w sparse_values =
  sv_indices :: "nat list"
  sv_values :: "'w list"

text \<open>
  The loop over \<open>sparse.items()\<close>; the dict is the list of its items in iteration
  order. The accumulators \<open>indices\<close> and \<open>values\<close> grow together.
\<close>

text \<open>The strings \<open>encode_utf8\<close> accepts: every code point a Unicode scalar value.\<close>

definition encodable :: "str \<Rightarrow> bool" where
  "encodable t \<longleftrightarrow> (\<forall>c\<in>set t. c < 0xD800 \<or> (0xDFFF < c \<and> c < 0x110000))"

text \<open>\<open>zlib.crc32(token.encode("utf-8"))\<close>\<close>

definition token_index :: "str \<Rightarrow> error + nat" where
  "token_index token = (case encode_utf8 token of Inl e \<Rightarrow> Inl e | Inr bs \<Rightarrow> Inr (crc32 bs))"

fun map_sparse_loop ::
  "(str \<times> 'w) list \<Rightarrow> nat list \<Rightarrow> 'w list \<Rightarrow> error + 'w sparse_values" where
  "map_sparse_loop [] indices vals = Inr \<lparr>sv_indices = indices, sv_values = vals\<rparr>"
| "map_sparse_loop ((token, weight) # items) indices vals =
     (case token_index token of
        Inl e \<Rightarrow> Inl e
      | Inr i \<Rightarrow> map_sparse_loop items (indices @ [i]) (vals @ [weight]))"

definition map_sparse_tokens :: "(str \<times> 'w) list \<Rightarrow> error + 'w sparse_values" where
  "map_sparse_tokens sparse = map_sparse_loop sparse [] []"

section \<open>Token extraction (\<open>extract_part_numbers\<close>, \<open>extract_model_numbers\<close>)\<close>

text \<open>
  The two patterns use only a word boundary and bounded or unbounded greedy repetitions
  of a character class, so a pattern is a list of such items. The character classes
  \<open>[A-Z0-9]\<close>, \<open>-\<close> and \<open>[A-Z0-9/]\<close> are ASCII; \<open>\b\<close> of a \<open>str\<close> pattern follows
  Unicode \<open>\w\<close>: ASCII letters, digits and the underscore, and beyond ASCII whatever
  the Unicode tables call alphanumeric. Those tables are the parameter \<open>uw\<close>.
\<close>

datatype re_item =
    WordBoundary
  | Repeat "nat \<Rightarrow> bool" nat "nat option"

definition upper_or_digit :: "nat \<Rightarrow> bool" where
  "upper_or_digit c \<longleftrightarrow> (65 \<le> c \<and> c \<le> 90) \<or> (48 \<le> c \<and> c \<le> 57)"

definition hyphen :: "nat \<Rightarrow> bool" where
  "hyphen c \<longleftrightarrow> c = 45"

definition upper_digit_slash :: "nat \<Rightarrow> bool" where
  "upper_digit_slash c \<longleftrightarrow> upper_or_digit c \<or> c = 47"

definition is_word :: "(nat \<Rightarrow> bool) \<Rightarrow> nat \<Rightarrow> bool" where
  "is_word uw c \<longleftrightarrow>
     (if c < 128 then upper_or_digit c \<or> (97 \<le> c \<and> c \<le> 122) \<or> c = 95 else uw c)"

text \<open>\<open>\b\<close> between the character before the position and the one after it, if any.\<close>

definition at_boundary :: "(nat \<Rightarrow> bool) \<Rightarrow> nat option \<Rightarrow> str \<Rightarrow> bool" where
  "at_boundary uw prev s \<longleftrightarrow>
     (case prev of None \<Rightarrow> False | Some c \<Rightarrow> is_word uw c)
       \<noteq> (case s of [] \<Rightarrow> False | c # _ \<Rightarrow> is_word uw c)"

text \<open>
  A greedy repetition takes as many characters as it may and gives them back one at a
  time while the rest of the pattern fails: \<open>try_counts f lo k\<close> tries the counts
  \<open>k, k - 1, \<dots>, lo\<close> in that order and returns the length of the first match found.
\<close>

primrec try_counts :: "(nat \<Rightarrow> nat option) \<Rightarrow> nat \<Rightarrow> nat \<Rightarrow> nat option" where
  "try_counts f lo 0 =
     (if 0 < lo then None else (case f 0 of Some n \<Rightarrow> Some n | None \<Rightarrow> None))"
| "try_counts f lo (Suc k) =
     (if Suc k < lo then None
      else (case f (Suc k) of Some n \<Rightarrow> Some (Suc k + n) | None \<Rightarrow> try_counts f lo k))"

definition available :: "(nat \<Rightarrow> bool) \<Rightarrow> nat option \<Rightarrow> str \<Rightarrow> nat" where
  "available cls hi s =
     (let n = length (takeWhile cls s) in case hi of None \<Rightarrow> n | Some h \<Rightarrow> min h n)"

definition char_before :: "nat option \<Rightarrow> str \<Rightarrow> nat \<Rightarrow> nat option" where
  "char_before prev s k = (if k = 0 \<or> s = [] then prev else Some (last (take k s)))"

text \<open>
  \<open>match_here uw items prev s\<close>: the length of the match of the pattern at the start of
  \<open>s\<close>, the character before it being \<open>prev\<close>; \<open>None\<close> when there is none.
\<close>

fun match_here :: "(nat \<Rightarrow> bool) \<Rightarrow> re_item list \<Rightarrow> nat option \<Rightarrow> str \<Rightarrow> nat option" where
  "match_here uw [] prev s = Some 0"
| "match_here uw (WordBoundary # items) prev s =
     (if at_boundary uw prev s then match_here uw items prev s else None)"
| "match_here uw (Repeat cls lo hi # items) prev s =
     try_counts (\<lambda>k. match_here uw items (char_before prev s k) (drop k s))
       lo (available cls hi s)"

text \<open>
  \<open>Pattern.findall\<close>: the matches from left to right, each search starting where the
  last match ended. (An empty match is recorded and the search moves one character on;
  neither pattern below can match the empty string.)
\<close>

function findall_from :: "(nat \<Rightarrow> bool) \<Rightarrow> re_item list \<Rightarrow> nat option \<Rightarrow> str \<Rightarrow> str list" where
  "findall_from uw re prev [] =
     (case match_here uw re prev [] of None \<Rightarrow> [] | Some n \<Rightarrow> [[]])"
| "findall_from uw re prev (c # cs) =
     (case match_here uw re prev (c # cs) of
        None \<Rightarrow> findall_from uw re (Some c) cs
      | Some n \<Rightarrow>
          (if n = 0 then [] # findall_from uw re (Some c) cs
           else take n (c # cs)
                  # findall_from uw re (char_before prev (c # cs) n) (drop n (c # cs))))"
  by pat_completeness auto
termination
  by (relation "measure (\<lambda>(uw, re, prev, s). length s)") auto

definition findall :: "(nat \<Rightarrow> bool) \<Rightarrow> re_item list \<Rightarrow> str \<Rightarrow> str list" where
  "findall uw re text = findall_from uw re None text"

text \<open>\<open>\b[A-Z0-9]{3,5}-?[0-9A-Z]{3,6}\b\<close>\<close>

definition PART_NUMBER_RE :: "re_item list" where
  "PART_NUMBER_RE =
     [WordBoundary, Repeat upper_or_digit 3 (Some 5), Repeat hyphen 0 (Some 1),
      Repeat upper_or_digit 3 (Some 6), WordBoundary]"

text \<open>\<open>\b[A-Z0-9]{3,}-[A-Z0-9/]{3,}\b\<close>\<close>

definition MODEL_RE :: "re_item list" where
  "MODEL_RE =
     [WordBoundary, Repeat upper_or_digit 3 None, Repeat hyphen 1 (Some 1),
      Repeat upper_digit_slash 3 None, WordBoundary]"

text \<open>\<open>sorted(set(candidates))\<close>, strings compared code point by code point.\<close>

definition extract_part_numbers :: "(nat \<Rightarrow> bool) \<Rightarrow> str \<Rightarrow> str list" where
  "extract_part_numbers uw text = sorted_list_of_set (set (findall uw PART_NUMBER_RE text))"

definition extract_model_numbers :: "(nat \<Rightarrow> bool) \<Rightarrow> str \<Rightarrow> str list" where
  "extract_model_numbers uw text = sorted_list_of_set (set (findall uw MODEL_RE text))"

section \<open>Upsert batching (\<open>range(0, len(to_upsert), batch_size)\<close> and the slice)\<close>

text \<open>
  \<open>range(start, stop, step)\<close> as CPython builds it: the length first, then the
  elements; a zero step raises \<open>ValueError\<close>.
\<close>

definition py_range :: "int \<Rightarrow> int \<Rightarrow> int \<Rightarrow> error + int list" where
  "py_range start stop step =
     (if step = 0 then Inl ValueError
      else if 0 < step then
        Inr (if start < stop
             then map (\<lambda>i. start + int i * step) [0..<nat ((stop - start - 1) div step + 1)]
             else [])
      else
        Inr (if stop < start
             then map (\<lambda>i. start + int i * step) [0..<nat ((start - stop - 1) div (- step) + 1)]
             else []))"

text \<open>The length of \<open>range(0, n, b)\<close> for a positive step \<open>b\<close>.\<close>

definition nbatches :: "nat \<Rightarrow> nat \<Rightarrow> nat" where
  "nbatches n b = (if n = 0 then 0 else (n - 1) div b + 1)"

text \<open>\<open>xs[a:b]\<close>: a negative bound counts from the end, and both are clamped.\<close>

definition slice_bound :: "int \<Rightarrow> int \<Rightarrow> nat" where
  "slice_bound n i = nat (if i < 0 then max 0 (n + i) else min i n)"

definition py_slice :: "'a list \<Rightarrow> int \<Rightarrow> int \<Rightarrow> 'a list" where
  "py_slice xs a b =
     (let n = int (length xs); lo = slice_bound n a; hi = slice_bound n b
      in take (hi - lo) (drop lo xs))"

definition upsert_batches :: "int \<Rightarrow> 'a list \<Rightarrow> error + 'a list list" where
  "upsert_batches batch_size to_upsert =
     (case py_range 0 (int (length to_upsert)) batch_size of
        Inl e \<Rightarrow> Inl e
      | Inr starts \<Rightarrow>
          Inr (map (\<lambda>start. py_slice to_upsert start (start + batch_size)) starts))"

section \<open>Ingestion pipeline (\<open>ingestion/pipeline.py\<close>)\<close>

subsection \<open>Data\<close>

record chunk_metadata =
  md_document_id :: str
  md_chunk_index :: nat
  md_text :: str
  md_appliance_type :: str
  md_brand :: str
  md_part_numbers :: "str list"
  md_appliance_models :: "str list"

text \<open>One element of \<open>to_upsert\<close>; \<open>'v\<close> is a dense vector, \<open>'w\<close> a sparse weight.\<close>

record ('v, 'w) embedding_record =
  rec_id :: str
  rec_values :: 'v
  rec_sparse_values :: "'w sparse_values"
  rec_metadata :: chunk_metadata

record image_meta =
  im_document_id :: str
  im_page_number :: nat
  im_image_path :: str
  im_analysis :: str

text \<open>The row written to the \<open>documents\<close> table.\<close>

record document_row =
  row_document_id :: str
  row_filename :: str
  row_total_pages :: nat
  row_images :: "image_meta list"

text \<open>
  A page as PyMuPDF hands it over: its text, and for each of its images whether
  \<open>_export_image\<close> manages to save it (\<open>_export_image\<close> turns every failure into
  \<open>None\<close>).
\<close>

record page =
  page_text :: str
  page_images :: "bool list"

text \<open>
  A file found under \<open>pdf_root\<close>: the parts of its path relative to the root, the last
  one being the file name, and its bytes.
\<close>

record pdf_file =
  rel_parts :: "str list"
  raw_bytes :: "nat list"

text \<open>
  \<open>IngestionConfig\<close>, \<open>PipelineComponents\<close> and everything outside the repository that
  the pipeline calls. Hashing, PDF parsing, text splitting and the two embedders are
  functions of their input; the two remote stores may fail from one call to the next,
  so their outcome depends on how many calls came before.
\<close>

record ('v, 'w) env =
  namespace :: str
  batch_size :: int
  tmp_dir :: str
  sha256_hexdigest :: "nat list \<Rightarrow> str"
  fitz_open :: "pdf_file \<Rightarrow> error + page list"
  vision_analyzer :: "(str \<Rightarrow> error + str) option"
  split_text :: "str \<Rightarrow> str list"
  dense_encode :: "str list \<Rightarrow> error + 'v list"
  tfidf_fit :: "str list \<Rightarrow> error option"
  tfidf_transform :: "str list \<Rightarrow> str list \<Rightarrow> error + (str \<times> 'w) list list"
  unicode_alnum :: "nat \<Rightarrow> bool"
  pinecone_client :: "error option"
  pinecone_upsert_raises :: "nat \<Rightarrow> error option"
  supabase_client :: "error option"
  supabase_upsert_raises :: "nat \<Rightarrow> error option"

text \<open>
  What a run can change: the tracker's dict and the checkpoint file, the embedder call
  counts, the calls issued to the vector index with the index contents (keyed by
  namespace and id), and the calls issued to the \<open>documents\<close> table with its rows
  (keyed by \<open>document_id\<close>).
\<close>

record ('v, 'w) pstate =
  tracker :: "str \<rightharpoonup> entry"
  state_file :: "(str \<rightharpoonup> entry) option"
  dense_embeds :: nat
  sparse_embeds :: nat
  upsert_calls :: "(str \<times> ('v, 'w) embedding_record list) list"
  vector_index :: "str \<times> str \<rightharpoonup> ('v, 'w) embedding_record"
  documents_calls :: "document_row list"
  documents_table :: "str \<rightharpoonup> document_row"

subsection \<open>State tracker operations\<close>

definition persist :: "('v, 'w) pstate \<Rightarrow> ('v, 'w) pstate" where
  "persist s = s\<lparr>state_file := Some (tracker s)\<rparr>"

definition mark :: "('v, 'w) pstate \<Rightarrow> str \<Rightarrow> str \<Rightarrow> entry option \<Rightarrow> ('v, 'w) pstate" where
  "mark s digest status meta =
     persist (s\<lparr>tracker := (tracker s)(digest \<mapsto> mark_entry status meta)\<rparr>)"

text \<open>\<open>StateTracker.load\<close>: the file's content, or the empty dict when there is no file.\<close>

definition load :: "('v, 'w) pstate \<Rightarrow> ('v, 'w) pstate" where
  "load s = s\<lparr>tracker := (case state_file s of None \<Rightarrow> Map.empty | Some data \<Rightarrow> data)\<rparr>"

text \<open>\<open>self.state.state.get(digest, {}).get("status")\<close>\<close>

definition status_of :: "('v, 'w) pstate \<Rightarrow> str \<Rightarrow> json option" where
  "status_of s digest =
     (case tracker s digest of None \<Rightarrow> None | Some e \<Rightarrow> e (py ''status''))"

subsection \<open>Paths and names\<close>

definition path_name :: "str list \<Rightarrow> str" where
  "path_name parts = (if parts = [] then [] else last parts)"

text \<open>\<open>str.rfind\<close> of one character: the last index holding it, or \<open>-1\<close>.\<close>

definition rfind :: "nat \<Rightarrow> str \<Rightarrow> int" where
  "rfind c s =
     (if c \<in> set s then int (length s) - 1 - int (length (takeWhile (\<lambda>x. x \<noteq> c) (rev s)))
      else - 1)"

text \<open>\<open>PurePath.stem\<close>: the name up to its last dot, unless that dot is first or last.\<close>

definition path_stem :: "str \<Rightarrow> str" where
  "path_stem name =
     (let i = rfind 46 name
      in if 0 < i \<and> i < int (length name) - 1 then take (nat i) name else name)"

definition path_labels :: "str list \<Rightarrow> str \<times> str" where
  "path_labels path_parts =
     (if 2 \<le> length path_parts then (path_parts ! 0, path_parts ! 1)
      else (py ''unknown'', py ''unknown''))"

definition digit_char :: "nat \<Rightarrow> nat" where
  "digit_char d = 48 + d"

text \<open>The decimal digits of a number, as an f-string renders it.\<close>

fun str_of_nat :: "nat \<Rightarrow> str" where
  "str_of_nat n =
     (if n < 10 then [digit_char n] else str_of_nat (n div 10) @ [digit_char (n mod 10)])"

declare str_of_nat.simps [simp del]

subsection \<open>Reading a document (lines 82 to 99)\<close>

definition image_path :: "str \<Rightarrow> str \<Rightarrow> nat \<Rightarrow> nat \<Rightarrow> str" where
  "image_path tmp doc_id page_number img_index =
     tmp @ py ''/'' @ doc_id @ py ''_p'' @ str_of_nat page_number @ py ''_''
       @ str_of_nat img_index @ py ''.png''"

fun analyze_images ::
  "('v, 'w) env \<Rightarrow> str \<Rightarrow> nat \<Rightarrow> nat \<Rightarrow> bool list \<Rightarrow> error + image_meta list" where
  "analyze_images env doc_id page_number img_index [] = Inr []"
| "analyze_images env doc_id page_number img_index (exported # imgs) =
     (case (if exported then vision_analyzer env else None) of
        None \<Rightarrow> analyze_images env doc_id page_number (Suc img_index) imgs
      | Some analyze \<Rightarrow>
          (let path = image_path (tmp_dir env) doc_id page_number img_index
           in case analyze path of
                Inl e \<Rightarrow> Inl e
              | Inr description \<Rightarrow>
                  (case analyze_images env doc_id page_number (Suc img_index) imgs of
                     Inl e \<Rightarrow> Inl e
                   | Inr others \<Rightarrow>
                       Inr (\<lparr>im_document_id = doc_id, im_page_number = page_number,
                             im_image_path = path, im_analysis = description\<rparr> # others))))"

fun read_pages ::
  "('v, 'w) env \<Rightarrow> str \<Rightarrow> nat \<Rightarrow> page list \<Rightarrow> error + (str list \<times> image_meta list)" where
  "read_pages env doc_id page_number [] = Inr ([], [])"
| "read_pages env doc_id page_number (pg # pgs) =
     (case analyze_images env doc_id page_number 1 (page_images pg) of
        Inl e \<Rightarrow> Inl e
      | Inr imgs \<Rightarrow>
          (case read_pages env doc_id (Suc page_number) pgs of
             Inl e \<Rightarrow> Inl e
           | Inr (texts, others) \<Rightarrow> Inr (page_text pg # texts, imgs @ others)))"

definition read_document ::
  "('v, 'w) env \<Rightarrow> str \<Rightarrow> pdf_file \<Rightarrow> error + (str list \<times> image_meta list)" where
  "read_document env doc_id pdf =
     (case fitz_open env pdf of Inl e \<Rightarrow> Inl e | Inr pages \<Rightarrow> read_pages env doc_id 1 pages)"

text \<open>\<open>chunk_iterable\<close> of \<open>chunkers.py\<close>: the chunks of each page, in page order.\<close>

definition chunk_iterable :: "('v, 'w) env \<Rightarrow> str list \<Rightarrow> str list" where
  "chunk_iterable env pages = concat (map (split_text env) pages)"

subsection \<open>Building and storing the records (lines 109 to 145)\<close>

text \<open>The loop over \<open>enumerate(zip(dense_vectors, sparse_vectors, chunks))\<close>.\<close>

fun build_records ::
  "('v, 'w) env \<Rightarrow> str \<Rightarrow> str \<Rightarrow> str \<Rightarrow> nat \<Rightarrow> ('v \<times> (str \<times> 'w) list \<times> str) list
     \<Rightarrow> error + ('v, 'w) embedding_record list" where
  "build_records env doc_id appliance_type brand idx [] = Inr []"
| "build_records env doc_id appliance_type brand idx ((dense, sparse, chunk_text) # rest) =
     (case map_sparse_tokens sparse of
        Inl e \<Rightarrow> Inl e
      | Inr sv \<Rightarrow>
          (case build_records env doc_id appliance_type brand (Suc idx) rest of
             Inl e \<Rightarrow> Inl e
           | Inr others \<Rightarrow>
               Inr (\<lparr>rec_id = doc_id @ py ''-'' @ str_of_nat idx,
                     rec_values = dense,
                     rec_sparse_values = sv,
                     rec_metadata =
                       \<lparr>md_document_id = doc_id, md_chunk_index = idx,
                        md_text = take 2000 chunk_text,
                        md_appliance_type = appliance_type, md_brand = brand,
                        md_part_numbers = extract_part_numbers (unicode_alnum env) chunk_text,
                        md_appliance_models =
                          extract_model_numbers (unicode_alnum env) chunk_text\<rparr>\<rparr> # others)))"

definition store_batch ::
  "str \<Rightarrow> ('v, 'w) embedding_record list \<Rightarrow> (str \<times> str \<rightharpoonup> ('v, 'w) embedding_record)
     \<Rightarrow> (str \<times> str \<rightharpoonup> ('v, 'w) embedding_record)" where
  "store_batch ns batch idx = foldl (\<lambda>m r. m((ns, rec_id r) \<mapsto> r)) idx batch"

text \<open>
  \<open>pinecone.upsert(vectors=batch, namespace=...)\<close>: the call is issued; when the
  service accepts it the records replace those of the same id in the namespace.
\<close>

definition pinecone_upsert ::
  "('v, 'w) env \<Rightarrow> ('v, 'w) embedding_record list \<Rightarrow> ('v, 'w) pstate
     \<Rightarrow> error option \<times> ('v, 'w) pstate" where
  "pinecone_upsert env batch s =
     (let s' = s\<lparr>upsert_calls := upsert_calls s @ [(namespace env, batch)]\<rparr>
      in case pinecone_upsert_raises env (length (upsert_calls s)) of
           Some e \<Rightarrow> (Some e, s')
         | None \<Rightarrow>
             (None, s'\<lparr>vector_index := store_batch (namespace env) batch (vector_index s)\<rparr>))"

fun upsert_loop ::
  "('v, 'w) env \<Rightarrow> ('v, 'w) embedding_record list list \<Rightarrow> ('v, 'w) pstate
     \<Rightarrow> error option \<times> ('v, 'w) pstate" where
  "upsert_loop env [] s = (None, s)"
| "upsert_loop env (batch # batches) s =
     (case pinecone_upsert env batch s of
        (Some e, s') \<Rightarrow> (Some e, s')
      | (None, s') \<Rightarrow> upsert_loop env batches s')"

text \<open>\<open>supabase.table("documents").upsert({...}).execute()\<close>\<close>

definition documents_upsert ::
  "('v, 'w) env \<Rightarrow> document_row \<Rightarrow> ('v, 'w) pstate \<Rightarrow> error option \<times> ('v, 'w) pstate" where
  "documents_upsert env row s =
     (let s' = s\<lparr>documents_calls := documents_calls s @ [row]\<rparr>
      in case supabase_upsert_raises env (length (documents_calls s)) of
           Some e \<Rightarrow> (Some e, s')
         | None \<Rightarrow>
             (None, s'\<lparr>documents_table := (documents_table s)(row_document_id row \<mapsto> row)\<rparr>))"

text \<open>Lines 133 to 145: the batched upsert, then the \<open>documents\<close> row.\<close>

definition store_document ::
  "('v, 'w) env \<Rightarrow> document_row \<Rightarrow> ('v, 'w) embedding_record list \<Rightarrow> ('v, 'w) pstate
     \<Rightarrow> error option \<times> ('v, 'w) pstate" where
  "store_document env row to_upsert s =
     (case upsert_batches (batch_size env) to_upsert of
        Inl e \<Rightarrow> (Some e, s)
      | Inr batches \<Rightarrow>
          (case upsert_loop env batches s of
             (Some e, s') \<Rightarrow> (Some e, s')
           | (None, s') \<Rightarrow>
               (case supabase_client env of
                  Some e \<Rightarrow> (Some e, s')
                | None \<Rightarrow> documents_upsert env row s')))"

text \<open>Lines 105 to 131: fit, the two embeddings, the index handle, the records.\<close>

definition embed_chunks ::
  "('v, 'w) env \<Rightarrow> str \<Rightarrow> str \<Rightarrow> str \<Rightarrow> str list \<Rightarrow> ('v, 'w) pstate
     \<Rightarrow> (error + ('v, 'w) embedding_record list) \<times> ('v, 'w) pstate" where
  "embed_chunks env doc_id appliance_type brand chunks s =
     (case tfidf_fit env chunks of
        Some e \<Rightarrow> (Inl e, s)
      | None \<Rightarrow>
          (let s1 = s\<lparr>dense_embeds := Suc (dense_embeds s)\<rparr>
           in case dense_encode env chunks of
                Inl e \<Rightarrow> (Inl e, s1)
              | Inr dense_vectors \<Rightarrow>
                  (let s2 = s1\<lparr>sparse_embeds := Suc (sparse_embeds s1)\<rparr>
                   in case tfidf_transform env chunks chunks of
                        Inl e \<Rightarrow> (Inl e, s2)
                      | Inr sparse_vectors \<Rightarrow>
                          (case pinecone_client env of
                             Some e \<Rightarrow> (Inl e, s2)
                           | None \<Rightarrow>
                               (build_records env doc_id appliance_type brand 0
                                  (zip dense_vectors (zip sparse_vectors chunks)), s2)))))"

definition process_pdf ::
  "('v, 'w) env \<Rightarrow> pdf_file \<Rightarrow> ('v, 'w) pstate \<Rightarrow> error option \<times> ('v, 'w) pstate" where
  "process_pdf env pdf s =
     (let name = path_name (rel_parts pdf);
          doc_id = path_stem name;
          (appliance_type, brand) = path_labels (rel_parts pdf)
      in case read_document env doc_id pdf of
           Inl e \<Rightarrow> (Some e, s)
         | Inr (text_pages, image_metadata) \<Rightarrow>
             (let chunks = chunk_iterable env text_pages
              in if chunks = [] then (None, s)
                 else (case embed_chunks env doc_id appliance_type brand chunks s of
                         (Inl e, s') \<Rightarrow> (Some e, s')
                       | (Inr to_upsert, s') \<Rightarrow>
                           store_document env
                             \<lparr>row_document_id = doc_id, row_filename = name,
                              row_total_pages = length text_pages,
                              row_images = image_metadata\<rparr>
                             to_upsert s')))"


subsection \<open>The controller (\<open>IngestionPipeline.ingest\<close>)\<close>

definition digest_of :: "('v, 'w) env \<Rightarrow> pdf_file \<Rightarrow> str" where
  "digest_of env pdf = sha256_hexdigest env (raw_bytes pdf)"

definition filename_meta :: "pdf_file \<Rightarrow> entry option" where
  "filename_meta pdf = Some [py ''filename'' \<mapsto> JStr (path_name (rel_parts pdf))]"

text \<open>
  The loop over \<open>self._iter_pdfs()\<close>, whose sorted enumeration is the list argument.
  An exception of \<open>_process_pdf\<close> is not caught: it ends the loop.
\<close>

fun ingest ::
  "('v, 'w) env \<Rightarrow> pdf_file list \<Rightarrow> ('v, 'w) pstate \<Rightarrow> error option \<times> ('v, 'w) pstate" where
  "ingest env [] s = (None, s)"
| "ingest env (pdf # pdfs) s =
     (let digest = digest_of env pdf
      in if status_of s digest = Some (JStr (py ''completed'')) then ingest env pdfs s
         else (case process_pdf env pdf (mark s digest (py ''processing'') (filename_meta pdf)) of
                 (Some e, s') \<Rightarrow> (Some e, s')
               | (None, s') \<Rightarrow>
                   ingest env pdfs (mark s' digest (py ''completed'') (filename_meta pdf))))"

text \<open>One run of the command line: a new pipeline loads the checkpoint file, then ingests.\<close>

definition run_ingestion ::
  "('v, 'w) env \<Rightarrow> pdf_file list \<Rightarrow> ('v, 'w) pstate \<Rightarrow> error option \<times> ('v, 'w) pstate" where
  "run_ingestion env pdfs s = ingest env pdfs (load s)"

section \<open>Retrieval pipeline (\<open>rag/pipeline.py\<close>)\<close>

text \<open>A Haystack document as the pipeline's components pass it on.\<close>

record 's document =
  doc_ident :: str
  doc_content :: str
  doc_meta :: "entry option"
  doc_score :: "'s option"

record 's retrieval_result =
  rr_document_id :: json
  rr_source :: json
  rr_page_number :: "json option"
  rr_appliance_type :: "json option"
  rr_summary :: "json option"
  rr_part_numbers :: json
  rr_score :: 's
  rr_text :: str

definition get_default :: "entry \<Rightarrow> str \<Rightarrow> json \<Rightarrow> json" where
  "get_default meta key dflt = (case meta key of None \<Rightarrow> dflt | Some v \<Rightarrow> v)"

text \<open>\<open>RetrievalPipeline._to_result\<close>; \<open>x or y\<close> is \<open>y\<close> when \<open>x\<close> is \<open>None\<close> or zero.\<close>

definition to_result :: "('s::zero) document \<Rightarrow> 's retrieval_result" where
  "to_result document =
     (let meta = (case doc_meta document of None \<Rightarrow> Map.empty | Some m \<Rightarrow> m)
      in \<lparr>rr_document_id = get_default meta (py ''document_id'') (JStr (doc_ident document)),
          rr_source = get_default meta (py ''source'') (JStr (py ''pinecone'')),
          rr_page_number = meta (py ''page_number''),
          rr_appliance_type = meta (py ''appliance_type''),
          rr_summary = meta (py ''summary''),
          rr_part_numbers = get_default meta (py ''part_numbers'') (JList []),
          rr_score = (case doc_score document of None \<Rightarrow> 0 | Some x \<Rightarrow> if x = 0 then 0 else x),
          rr_text = doc_content document\<rparr>)"

text \<open>
  The three components added in \<open>RetrievalPipeline.__init__\<close>, which are Haystack's
  and not the repository's: the query embedder, the vector-store retriever (given the
  query embedding and the number of neighbours to return) and the ranker (given the
  query, its \<open>top_k\<close> and the candidates). Each may raise.
\<close>

record ('q, 's) rcomponents =
  text_embedder :: "str \<Rightarrow> error + 'q"
  retriever :: "'q \<Rightarrow> int \<Rightarrow> error + 's document list"
  ranker :: "str \<Rightarrow> int \<Rightarrow> 's document list \<Rightarrow> error + 's document list"

text \<open>
  The \<open>data\<close> argument of \<open>Pipeline.run\<close>: for a component's name, the values of its
  inputs by name.
\<close>

type_synonym run_data = "(str \<times> (str \<times> str) list) list"

definition data_input :: "run_data \<Rightarrow> str \<Rightarrow> str \<Rightarrow> str option" where
  "data_input data component socket =
     (case map_of data component of None \<Rightarrow> None | Some inputs \<Rightarrow> map_of inputs socket)"

text \<open>
  \<open>self.pipeline.run\<close> over the graph wired in \<open>__init__\<close>: the embedding goes to the
  retriever, built with \<open>top_k * 2\<close>; the retriever's documents go to the ranker, built
  with \<open>top_k\<close>. The embedder's \<open>text\<close> and the ranker's \<open>query\<close> are sent by no
  component, so they are read from \<open>data\<close>, and a run whose \<open>data\<close> leaves one of them
  without a value is refused with \<open>ValueError\<close> before any component runs. An
  exception of a component leaves the run.
\<close>

definition pipeline_run ::
  "('q, 's) rcomponents \<Rightarrow> int \<Rightarrow> run_data \<Rightarrow> error + 's document list" where
  "pipeline_run rc top_k data =
     (case data_input data (py ''text_embedder'') (py ''text'') of
        None \<Rightarrow> Inl ValueError
      | Some text \<Rightarrow>
          (case data_input data (py ''ranker'') (py ''query'') of
             None \<Rightarrow> Inl ValueError
           | Some ranker_query \<Rightarrow>
               (case text_embedder rc text of
                  Inl e \<Rightarrow> Inl e
                | Inr embedding \<Rightarrow>
                    (case retriever rc embedding (top_k * 2) of
                       Inl e \<Rightarrow> Inl e
                     | Inr candidates \<Rightarrow> ranker rc ranker_query top_k candidates))))"

text \<open>
  \<open>RetrievalPipeline.retrieve\<close>: the run is given
  \<open>data={"text_embedder": {"text": query}}\<close>, and no exception is caught.
\<close>

definition retrieve ::
  "('q, 's::zero) rcomponents \<Rightarrow> int \<Rightarrow> str \<Rightarrow> error + 's retrieval_result list" where
  "retrieve rc top_k query =
     (case pipeline_run rc top_k [(py ''text_embedder'', [(py ''text'', query)])] of
        Inl e \<Rightarrow> Inl e
      | Inr documents \<Rightarrow> Inr (map to_result documents))"

section \<open>A small world to run the model in\<close>

text \<open>
  Stand-ins for the outside world, used where a statement is evaluated on a concrete
  run. The digest is the byte string written out in decimal, a file without bytes
  cannot be opened, a file is one page holding its non-zero bytes as text, a page is
  one chunk (none when it has no text), a dense vector is the chunk's length, a sparse
  vector has no terms and both stores accept every call.
\<close>

definition ex_env :: "(nat, nat) env" where
  "ex_env =
     \<lparr>namespace = py ''appliance_manuals'', batch_size = 32, tmp_dir = py ''.ingestion/tmp'',
      sha256_hexdigest = (\<lambda>bs. concat (map str_of_nat bs)),
      fitz_open = (\<lambda>pdf. if raw_bytes pdf = [] then Inl FitzError
                          else Inr [\<lparr>page_text = filter (\<lambda>c. c \<noteq> 0) (raw_bytes pdf),
                                     page_images = []\<rparr>]),
      vision_analyzer = None,
      split_text = (\<lambda>t. if t = [] then [] else [t]),
      dense_encode = (\<lambda>chunks. Inr (map length chunks)),
      tfidf_fit = (\<lambda>chunks. None),
      tfidf_transform = (\<lambda>corpus texts. Inr (map (\<lambda>t. []) texts)),
      unicode_alnum = (\<lambda>c. False),
      pinecone_client = None,
      pinecone_upsert_raises = (\<lambda>n. None),
      supabase_client = None,
      supabase_upsert_raises = (\<lambda>n. None)\<rparr>"

definition ex_state :: "(nat, nat) pstate" where
  "ex_state =
     \<lparr>tracker = Map.empty, state_file = None, dense_embeds = 0, sparse_embeds = 0,
      upsert_calls = [], vector_index = Map.empty,
      documents_calls = [], documents_table = Map.empty\<rparr>"

definition pdf_good :: pdf_file where
  "pdf_good = \<lparr>rel_parts = [py ''Oven'', py ''Acme'', py ''a.pdf''], raw_bytes = py ''hi''\<rparr>"

text \<open>The same bytes under another name.\<close>

definition pdf_copy :: pdf_file where
  "pdf_copy = \<lparr>rel_parts = [py ''Oven'', py ''Acme'', py ''b.pdf''], raw_bytes = py ''hi''\<rparr>"

text \<open>A file that cannot be opened, and one whose only page has no text.\<close>

definition pdf_bad :: pdf_file where
  "pdf_bad = \<lparr>rel_parts = [py ''0.pdf''], raw_bytes = []\<rparr>"

definition pdf_blank :: pdf_file where
  "pdf_blank = \<lparr>rel_parts = [py ''blank.pdf''], raw_bytes = [0]\<rparr>"

text \<open>Five records to batch.\<close>

definition ex_rec :: "nat \<Rightarrow> (nat, nat) embedding_record" where
  "ex_rec i =
     \<lparr>rec_id = py ''a-'' @ str_of_nat i, rec_values = i,
      rec_sparse_values = \<lparr>sv_indices = [], sv_values = []\<rparr>,
      rec_metadata =
        \<lparr>md_document_id = py ''a'', md_chunk_index = i, md_text = [],
         md_appliance_type = py ''unknown'', md_brand = py ''unknown'',
         md_part_numbers = [], md_appliance_models = []\<rparr>\<rparr>"

text \<open>The same world with batches of two.\<close>

definition ex_env2 :: "(nat, nat) env" where
  "ex_env2 = ex_env\<lparr>batch_size := 2\<rparr>"

definition ex_recs :: "(nat, nat) embedding_record list" where
  "ex_recs = map ex_rec [0, 1, 2, 3, 4]"

text \<open>The text of the specification's token-extraction test.\<close>

definition ex_text :: str where
  "ex_text = py ''Part WR-60X10074 Model ABC-123/DEF''"

text \<open>A sparse vector of two terms, and a checkpoint entry with a page count.\<close>

definition ex_sparse :: "(str \<times> int) list" where
  "ex_sparse = [(py ''abc'', 3), (py ''filter'', 5)]"

definition ex_tracked :: "(nat, nat) pstate" where
  "ex_tracked =
     ex_state\<lparr>tracker :=
       [py ''d1'' \<mapsto> [py ''status'' \<mapsto> JStr (py ''processing''), py ''pages'' \<mapsto> JInt 3],
        py ''d2'' \<mapsto> [py ''status'' \<mapsto> JStr (py ''completed'')]]\<rparr>"

text \<open>
  A retrieval pipeline over three candidates: the store cannot be reached for the empty
  query, holds nothing for a query of one character, and the ranker keeps the first
  \<open>top_k\<close> candidates.
\<close>

definition ex_docs :: "int document list" where
  "ex_docs =
     [\<lparr>doc_ident = py ''a-0'', doc_content = py ''xx'', doc_meta = None, doc_score = Some 9\<rparr>,
      \<lparr>doc_ident = py ''a-1'', doc_content = py ''yyy'', doc_meta = None, doc_score = Some 8\<rparr>,
      \<lparr>doc_ident = py ''a-2'', doc_content = py ''zz'', doc_meta = None, doc_score = Some 7\<rparr>]"

definition ex_rc :: "(nat, int) rcomponents" where
  "ex_rc =
     \<lparr>text_embedder = (\<lambda>q. Inr (length q)),
      retriever = (\<lambda>emb k. if emb = 0 then Inl StoreUnreachable
                            else if emb = 1 then Inr [] else Inr (take (nat k) ex_docs)),
      ranker = (\<lambda>q k candidates. Inr (take (nat k) candidates))\<rparr>"

text \<open>The small world with an index that refuses the first call it gets.\<close>

definition ex_env_flaky :: "(nat, nat) env" where
  "ex_env_flaky =
     ex_env\<lparr>pinecone_upsert_raises := (\<lambda>n. if n = 0 then Some PineconeError else None)\<rparr>"

section \<open>The sparse token hasher stays within 32 bits\<close>

lemma xor_nat_bound: "a < 2 ^ n \<Longrightarrow> b < 2 ^ n \<Longrightarrow> (a::nat) XOR b < 2 ^ n"
  by (metis take_bit_nat_eq_self_iff take_bit_xor)

lemma xor32_bound: "a < 4294967296 \<Longrightarrow> b < 4294967296 \<Longrightarrow> (a::nat) XOR b < 4294967296"
  using xor_nat_bound [of a 32 b] by simp

lemma crc_shift_bound:
  assumes "crc < 4294967296"
  shows "crc_shift crc < 4294967296"
proof -
  from assms have h: "crc div 2 < 4294967296"
    by (rule div_le_dividend [THEN le_less_trans])
  have "(0xEDB88320::nat) < 4294967296" by simp
  from xor32_bound [OF h this] h show ?thesis
    unfolding crc_shift_def by presburger
qed

lemma crc_shift_funpow_bound: "crc < 4294967296 \<Longrightarrow> (crc_shift ^^ k) crc < 4294967296"
  by (induction k) (simp_all add: crc_shift_bound)

lemma crc_byte_bound:
  "crc < 4294967296 \<Longrightarrow> b < 4294967296 \<Longrightarrow> crc_byte crc b < 4294967296"
  unfolding crc_byte_def by (intro crc_shift_funpow_bound xor32_bound)

lemma crc_fold_bound:
  "crc < 4294967296 \<Longrightarrow> \<forall>b\<in>set bs. b < 256 \<Longrightarrow> foldl crc_byte crc bs < 4294967296"
proof (induction bs arbitrary: crc)
  case Nil
  then show ?case by simp
next
  case (Cons b bs)
  from Cons.prems have "b < 4294967296" by simp
  with Cons.prems have "crc_byte crc b < 4294967296" by (simp only: crc_byte_bound)
  with Cons show ?case by simp
qed

lemma crc32_bound: "\<forall>b\<in>set bs. b < 256 \<Longrightarrow> crc32 bs < 4294967296"
proof -
  assume "\<forall>b\<in>set bs. b < 256"
  then have "foldl crc_byte 0xFFFFFFFF bs < 4294967296"
    by (intro crc_fold_bound) simp_all
  moreover have "(0xFFFFFFFF::nat) < 4294967296" by simp
  ultimately show ?thesis
    unfolding crc32_def by (rule xor32_bound)
qed

lemma utf8_char_bytes: "utf8_char c = Inr bs \<Longrightarrow> b \<in> set bs \<Longrightarrow> b < 256"
  unfolding utf8_char_def by (auto split: if_splits)

lemma encode_utf8_bytes: "encode_utf8 t = Inr bs \<Longrightarrow> \<forall>b\<in>set bs. b < 256"
proof (induction t arbitrary: bs)
  case Nil
  then show ?case by simp
next
  case (Cons c cs)
  then show ?case
    by (auto split: sum.splits dest: utf8_char_bytes)
qed

lemma token_index_bound: "token_index t = Inr i \<Longrightarrow> i < 4294967296"
  by (auto simp: token_index_def split: sum.splits dest!: encode_utf8_bytes intro: crc32_bound)

lemma map_sparse_loop_result:
  "map_sparse_loop items indices vals = Inr out \<Longrightarrow>
     map Inr (sv_indices out) = map Inr indices @ map (token_index \<circ> fst) items
     \<and> sv_values out = vals @ map snd items"
proof (induction items arbitrary: indices vals)
  case Nil
  then show ?case by auto
next
  case (Cons it items)
  obtain token weight where it: "it = (token, weight)" by (cases it)
  from Cons.prems it obtain i where i: "token_index token = Inr i"
    and rest: "map_sparse_loop items (indices @ [i]) (vals @ [weight]) = Inr out"
    by (auto split: sum.splits)
  from Cons.IH [OF rest] i it show ?case by simp
qed

lemma utf8_char_total: "c < 0xD800 \<or> (0xDFFF < c \<and> c < 0x110000) \<Longrightarrow> \<exists>bs. utf8_char c = Inr bs"
  unfolding utf8_char_def by auto

lemma encode_utf8_total: "\<forall>c\<in>set t. c < 0xD800 \<or> (0xDFFF < c \<and> c < 0x110000) \<Longrightarrow> \<exists>bs. encode_utf8 t = Inr bs"
proof (induction t)
  case Nil
  then show ?case by simp
next
  case (Cons c cs)
  then obtain bs where "utf8_char c = Inr bs" using utf8_char_total [of c] by auto
  moreover from Cons obtain rest where "encode_utf8 cs = Inr rest" by auto
  ultimately show ?case by simp
qed

lemma map_sparse_loop_total:
  "\<forall>(t, w)\<in>set items. \<forall>c\<in>set t. c < 0xD800 \<or> (0xDFFF < c \<and> c < 0x110000) \<Longrightarrow>
     \<exists>out. map_sparse_loop items indices vals = Inr out"
proof (induction items arbitrary: indices vals)
  case Nil
  then show ?case by simp
next
  case (Cons it items)
  obtain token weight where it: "it = (token, weight)" by (cases it)
  with Cons.prems obtain bs where "encode_utf8 token = Inr bs"
    using encode_utf8_total [of token] by auto
  then have "token_index token = Inr (crc32 bs)" by (simp add: token_index_def)
  moreover from Cons.prems have "\<forall>(t, w)\<in>set items. \<forall>c\<in>set t. c < 0xD800 \<or> (0xDFFF < c \<and> c < 0x110000)"
    by simp
  ultimately show ?case using Cons.IH it by simp
qed

section \<open>Batches are contiguous slices\<close>

lemma concat_take_drop:
  "concat (map (\<lambda>i. take b (drop (i * b) xs)) [0..<k]) = take (k * b) xs"
proof (induction k)
  case 0
  then show ?case by simp
next
  case (Suc k)
  have "take (k * b) xs @ take b (drop (k * b) xs) = take (k * b + b) xs"
    by (simp add: take_add)
  with Suc show ?case by (simp add: add.commute)
qed

lemma py_slice_nonneg:
  "0 \<le> a \<Longrightarrow> a \<le> b \<Longrightarrow> py_slice xs a b = take (nat b - nat a) (drop (nat a) xs)"
  unfolding py_slice_def slice_bound_def Let_def
  by (auto simp: min_def nat_le_iff not_le nat_diff_distrib' intro!: take_all order.trans[OF _ diff_le_self]) 

lemma py_range_pos:
  assumes "0 < B"
  shows "py_range 0 (int n) B = Inr (map (\<lambda>i. int i * B) [0..<nbatches n (nat B)])"
proof (cases "n = 0")
  case True
  then show ?thesis using assms by (simp add: py_range_def nbatches_def)
next
  case False
  have "(int n - 1) div B = int ((n - 1) div nat B)"
    using False assms by (simp add: zdiv_int of_nat_diff)
  then have "nat ((int n - 1) div B + 1) = (n - 1) div nat B + 1"
    by (simp add: nat_add_distrib)
  with False assms show ?thesis by (simp add: py_range_def nbatches_def)
qed

lemma upsert_batches_pos:
  assumes "0 < B"
  shows "upsert_batches B xs = Inr (map (\<lambda>i. take (nat B) (drop (i * nat B) xs)) [0..<nbatches (length xs) (nat B)])"
proof -
  have "py_slice xs (int i * B) (int i * B + B) = take (nat B) (drop (i * nat B) xs)" for i
  proof -
    have "py_slice xs (int i * B) (int i * B + B) = take (nat (int i * B + B) - nat (int i * B)) (drop (nat (int i * B)) xs)"
      using assms by (intro py_slice_nonneg) simp_all
    moreover have "nat (int i * B) = i * nat B" using assms by (simp add: nat_mult_distrib)
    moreover have "nat (int i * B + B) = i * nat B + nat B" using assms by (simp add: nat_add_distrib nat_mult_distrib)
    ultimately show ?thesis by simp
  qed
  then show ?thesis
    using py_range_pos [OF assms, of "length xs"] by (simp add: upsert_batches_def)
qed

lemma nbatches_covers: "0 < b \<Longrightarrow> n \<le> nbatches n b * b"
proof (cases "n = 0")
  case True
  then show ?thesis by simp
next
  case False
  assume b: "0 < b"
  have "n - 1 < b + (n - 1) div b * b" using b by (rule dividend_less_div_times)
  with False show ?thesis by (simp add: nbatches_def)
qed

lemma nbatches_last: "i < nbatches n b \<Longrightarrow> i * b < n"
proof (cases "n = 0")
  case True
  assume "i < nbatches n b"
  with True show ?thesis by (simp add: nbatches_def)
next
  case False
  assume "i < nbatches n b"
  with False have "i \<le> (n - 1) div b" by (simp add: nbatches_def)
  then have "i * b \<le> (n - 1) div b * b" by (rule mult_le_mono1)
  also have "\<dots> \<le> n - 1" by (rule div_times_less_eq_dividend)
  finally show ?thesis using False by simp
qed

lemma nbatches_ceiling:
  assumes b: "0 < b"
  shows "int (nbatches n b) = \<lceil>real n / real b\<rceil>"
proof (cases "n = 0")
  case True
  then show ?thesis by (simp add: nbatches_def)
next
  case False
  then have pos: "0 < nbatches n b" by (simp add: nbatches_def)
  have up: "real n \<le> real (nbatches n b) * real b"
    using nbatches_covers [OF b, of n] by (metis of_nat_le_iff of_nat_mult)
  have "(nbatches n b - 1) * b < n"
    using pos by (intro nbatches_last) simp
  then have "real ((nbatches n b - 1) * b) < real n" by (simp only: of_nat_less_iff)
  then have low: "(real (nbatches n b) - 1) * real b < real n"
    using pos by (simp add: of_nat_diff)
  have "\<lceil>real n / real b\<rceil> = int (nbatches n b)"
  proof (rule ceiling_unique)
    show "of_int (int (nbatches n b)) - 1 < real n / real b"
      using low b by (simp add: pos_less_divide_eq)
    show "real n / real b \<le> of_int (int (nbatches n b))"
      using up b by (simp add: pos_divide_le_eq)
  qed
  then show ?thesis by simp
qed

lemma batch_nonempty:
  assumes "0 < b" "i < nbatches (length xs) b"
  shows "take b (drop (i * b) xs) \<noteq> [] \<and> length (take b (drop (i * b) xs)) \<le> b"
  using nbatches_last [OF assms(2)] assms(1) by simp

section \<open>Claim C9: the sparse token hasher\<close>

lemma map_sparse_loop_total':
  "\<forall>(t, w)\<in>set items. encodable t \<Longrightarrow> \<exists>out. map_sparse_loop items indices vals = Inr out"
  using map_sparse_loop_total [of items indices vals] unfolding encodable_def by blast

text \<open>
  Claim C9. The index of a term is \<open>token_index\<close> of the term, a function of the term
  alone: whatever the weights and the other terms of the map, a term gets the same
  index, and the index is below \<open>2 ^ 32\<close>. The produced pair lists, position by
  position, the index and the weight of the same term of the map. A map whose terms
  can all be encoded is always mapped.
\<close>

theorem sparse_token_hasher:
  "(map_sparse_tokens sparse = Inr out \<longrightarrow>
      map Inr (sv_indices out) = map (token_index \<circ> fst) sparse
      \<and> sv_values out = map snd sparse
      \<and> (\<forall>i<length sparse.
            token_index (fst (sparse ! i)) = Inr (sv_indices out ! i)
            \<and> sv_indices out ! i < 2 ^ 32
            \<and> sv_values out ! i = snd (sparse ! i)))
   \<and> ((\<forall>(t, w)\<in>set sparse. encodable t) \<longrightarrow> (\<exists>r. map_sparse_tokens sparse = Inr r))"
proof (intro conjI impI)
  assume ok: "map_sparse_tokens sparse = Inr out"
  then have res: "map Inr (sv_indices out) = map (token_index \<circ> fst) sparse"
    and vals: "sv_values out = map snd sparse"
    using map_sparse_loop_result [of sparse "[]" "[]" out]
    by (simp_all add: map_sparse_tokens_def)
  show "map Inr (sv_indices out) = map (token_index \<circ> fst) sparse" by (rule res)
  show "sv_values out = map snd sparse" by (rule vals)
  show "\<forall>i<length sparse.
            token_index (fst (sparse ! i)) = Inr (sv_indices out ! i)
            \<and> sv_indices out ! i < 2 ^ 32
            \<and> sv_values out ! i = snd (sparse ! i)"
  proof (intro allI impI)
    fix i assume i: "i < length sparse"
    from res have len: "length (sv_indices out) = length sparse"
      by (metis length_map)
    from res have "map Inr (sv_indices out) ! i = map (token_index \<circ> fst) sparse ! i"
      by simp
    with i len have ti: "token_index (fst (sparse ! i)) = Inr (sv_indices out ! i)"
      by simp
    from token_index_bound [OF ti] have "sv_indices out ! i < 2 ^ 32" by simp
    with ti vals i show "token_index (fst (sparse ! i)) = Inr (sv_indices out ! i)
            \<and> sv_indices out ! i < 2 ^ 32
            \<and> sv_values out ! i = snd (sparse ! i)" by simp
  qed
next
  assume "\<forall>(t, w)\<in>set sparse. encodable t"
  then show "\<exists>r. map_sparse_tokens sparse = Inr r"
    unfolding map_sparse_tokens_def by (rule map_sparse_loop_total')
qed

text \<open>The hasher on a map of two terms; the indices are those \<open>zlib.crc32\<close> gives.\<close>

lemma crc_byte_unfold:
  "crc_byte crc b =
     crc_shift (crc_shift (crc_shift (crc_shift (crc_shift (crc_shift (crc_shift (crc_shift
       (crc XOR b))))))))"
  by (simp add: crc_byte_def eval_nat_numeral)

lemma ex_sparse_eval:
  "map_sparse_tokens ex_sparse = Inr \<lparr>sv_indices = [891568578, 2143575837], sv_values = [3, 5]\<rparr>"
  by (simp add: map_sparse_tokens_def ex_sparse_def token_index_def py_def utf8_char_def
      crc32_def crc_byte_unfold crc_shift_def)

lemma ex_sparse_encodable: "\<forall>(t, w)\<in>set ex_sparse. encodable t"
  by (simp add: ex_sparse_def encodable_def py_def)

theorem sparse_token_hasher_witness:
  "map_sparse_tokens ex_sparse = Inr \<lparr>sv_indices = [891568578, 2143575837], sv_values = [3, 5]\<rparr>
   \<and> token_index (fst (ex_sparse ! 1)) = Inr 2143575837
   \<and> (2143575837::nat) < 2 ^ 32
   \<and> encodable (fst (ex_sparse ! 0)) \<and> encodable (fst (ex_sparse ! 1))"
  using sparse_token_hasher
      [of ex_sparse "\<lparr>sv_indices = [891568578, 2143575837], sv_values = [3, 5]\<rparr>"]
    ex_sparse_eval ex_sparse_encodable
  by (simp add: ex_sparse_def)

section \<open>Claim C7: the upsert batcher\<close>

lemma pinecone_upsert_calls:
  "upsert_calls (snd (pinecone_upsert env batch s)) = upsert_calls s @ [(namespace env, batch)]"
  by (simp add: pinecone_upsert_def Let_def split: option.splits)

lemma upsert_loop_calls:
  "fst (upsert_loop env batches s) = None \<Longrightarrow>
     upsert_calls (snd (upsert_loop env batches s))
       = upsert_calls s @ map (Pair (namespace env)) batches"
proof (induction batches arbitrary: s)
  case Nil
  then show ?case by simp
next
  case (Cons b bs)
  obtain r s' where step: "pinecone_upsert env b s = (r, s')" by (cases "pinecone_upsert env b s")
  with Cons.prems have r: "r = None" by (cases r) auto
  from step have calls: "upsert_calls s' = upsert_calls s @ [(namespace env, b)]"
    using pinecone_upsert_calls [of env b s] by simp
  from Cons.prems step r have "fst (upsert_loop env bs s') = None" by simp
  from Cons.IH [OF this] step r calls show ?case by simp
qed


lemma upsert_loop_accepted:
  "\<forall>n. pinecone_upsert_raises env n = None \<Longrightarrow> fst (upsert_loop env batches s) = None"
  by (induction batches arbitrary: s) (simp_all add: pinecone_upsert_def Let_def)

text \<open>
  Claim C7. With a batch size \<open>B > 0\<close> the batcher cuts the \<open>N\<close> records into
  \<open>ceil(N / B)\<close> batches, none empty and none longer than \<open>B\<close>, whose concatenation
  is the list of records in its order. The loop issues the batches in that order, each
  under the configured namespace: one call per batch when no call raises, which is the
  case whenever the index accepts every call.
\<close>

theorem upsert_batcher_partition:
  assumes "0 < batch_size env"
  shows "\<exists>batches.
           upsert_batches (batch_size env) recs = Inr batches
         \<and> concat batches = recs
         \<and> int (length batches) = \<lceil>real (length recs) / real_of_int (batch_size env)\<rceil>
         \<and> (\<forall>b\<in>set batches. b \<noteq> [] \<and> int (length b) \<le> batch_size env)
         \<and> (fst (upsert_loop env batches s) = None \<longrightarrow>
              upsert_calls (snd (upsert_loop env batches s))
                = upsert_calls s @ map (Pair (namespace env)) batches)
         \<and> ((\<forall>n. pinecone_upsert_raises env n = None) \<longrightarrow>
              fst (upsert_loop env batches s) = None)"
proof -
  define b where "b = nat (batch_size env)"
  define k where "k = nbatches (length recs) b"
  define batches where "batches = map (\<lambda>i. take b (drop (i * b) recs)) [0..<k]"
  from assms have b: "0 < b" and bb: "int b = batch_size env" by (simp_all add: b_def)
  have eq: "upsert_batches (batch_size env) recs = Inr batches"
    using upsert_batches_pos [OF assms, of recs] by (simp add: batches_def k_def b_def)
  have "concat batches = take (k * b) recs"
    unfolding batches_def by (rule concat_take_drop)
  moreover have "length recs \<le> k * b" unfolding k_def using b by (rule nbatches_covers)
  ultimately have cat: "concat batches = recs" by simp
  have "int (length batches) = \<lceil>real (length recs) / real b\<rceil>"
    using nbatches_ceiling [OF b, of "length recs"] by (simp add: batches_def k_def)
  moreover have "real b = real_of_int (batch_size env)"
    using assms by (simp add: b_def)
  ultimately have len: "int (length batches) = \<lceil>real (length recs) / real_of_int (batch_size env)\<rceil>"
    by simp
  have each: "\<forall>x\<in>set batches. x \<noteq> [] \<and> int (length x) \<le> batch_size env"
  proof
    fix x assume "x \<in> set batches"
    then obtain i where i: "i < k" and x: "x = take b (drop (i * b) recs)"
      by (auto simp: batches_def)
    from i have "i * b < length recs" unfolding k_def by (rule nbatches_last)
    with b x have "x \<noteq> []" and "length x \<le> b" by simp_all
    with bb show "x \<noteq> [] \<and> int (length x) \<le> batch_size env" by simp
  qed
  show ?thesis
  proof (rule exI [of _ batches], intro conjI)
    show "upsert_batches (batch_size env) recs = Inr batches" by (rule eq)
    show "concat batches = recs" by (rule cat)
    show "int (length batches) = \<lceil>real (length recs) / real_of_int (batch_size env)\<rceil>"
      by (rule len)
    show "\<forall>x\<in>set batches. x \<noteq> [] \<and> int (length x) \<le> batch_size env" by (rule each)
    show "fst (upsert_loop env batches s) = None \<longrightarrow>
            upsert_calls (snd (upsert_loop env batches s))
              = upsert_calls s @ map (Pair (namespace env)) batches"
      by (rule impI) (rule upsert_loop_calls)
    show "(\<forall>n. pinecone_upsert_raises env n = None) \<longrightarrow>
            fst (upsert_loop env batches s) = None"
      by (rule impI) (rule upsert_loop_accepted)
  qed
qed

text \<open>Five records in batches of two.\<close>

lemma ex_recs_batches:
  "upsert_batches 2 ex_recs = Inr [[ex_rec 0, ex_rec 1], [ex_rec 2, ex_rec 3], [ex_rec 4]]"
proof -
  have "[0..<3] = [0, 1, 2::nat]" by code_simp
  then show ?thesis
    by (simp add: upsert_batches_def py_range_def py_slice_def slice_bound_def ex_recs_def)
qed

theorem upsert_batcher_partition_witness:
  "0 < batch_size ex_env2
   \<and> upsert_batches (batch_size ex_env2) ex_recs
        = Inr [[ex_rec 0, ex_rec 1], [ex_rec 2, ex_rec 3], [ex_rec 4]]
   \<and> \<lceil>real (length ex_recs) / real_of_int (batch_size ex_env2)\<rceil> = 3
   \<and> upsert_calls
         (snd (upsert_loop ex_env2 [[ex_rec 0, ex_rec 1], [ex_rec 2, ex_rec 3], [ex_rec 4]]
                 ex_state))
        = [(py ''appliance_manuals'', [ex_rec 0, ex_rec 1]),
           (py ''appliance_manuals'', [ex_rec 2, ex_rec 3]),
           (py ''appliance_manuals'', [ex_rec 4])]"
proof -
  have bs: "batch_size ex_env2 = 2" by (simp add: ex_env2_def)
  then have pos: "0 < batch_size ex_env2" by simp
  have acc: "\<forall>n. pinecone_upsert_raises ex_env2 n = None"
    by (simp add: ex_env2_def ex_env_def)
  have ns: "namespace ex_env2 = py ''appliance_manuals''"
    by (simp add: ex_env2_def ex_env_def)
  have st: "upsert_calls ex_state = []" by (simp add: ex_state_def)
  have ev: "upsert_batches (batch_size ex_env2) ex_recs
      = Inr [[ex_rec 0, ex_rec 1], [ex_rec 2, ex_rec 3], [ex_rec 4]]"
    using ex_recs_batches by (simp only: bs)
  from upsert_batcher_partition [OF pos, of ex_recs ex_state] show ?thesis
  proof (elim exE conjE)
    fix batches
    assume b: "upsert_batches (batch_size ex_env2) ex_recs = Inr batches"
      and len: "int (length batches)
        = \<lceil>real (length ex_recs) / real_of_int (batch_size ex_env2)\<rceil>"
      and calls: "fst (upsert_loop ex_env2 batches ex_state) = None \<longrightarrow>
        upsert_calls (snd (upsert_loop ex_env2 batches ex_state))
          = upsert_calls ex_state @ map (Pair (namespace ex_env2)) batches"
      and ok: "(\<forall>n. pinecone_upsert_raises ex_env2 n = None) \<longrightarrow>
        fst (upsert_loop ex_env2 batches ex_state) = None"
    from b ev
    have eq: "batches = [[ex_rec 0, ex_rec 1], [ex_rec 2, ex_rec 3], [ex_rec 4]]" by simp
    from ok acc have "fst (upsert_loop ex_env2 batches ex_state) = None"
      by (rule mp)
    with calls have "upsert_calls (snd (upsert_loop ex_env2 batches ex_state))
          = upsert_calls ex_state @ map (Pair (namespace ex_env2)) batches"
      by (rule mp)
    then have c: "upsert_calls
         (snd (upsert_loop ex_env2 [[ex_rec 0, ex_rec 1], [ex_rec 2, ex_rec 3], [ex_rec 4]]
                 ex_state))
        = [(py ''appliance_manuals'', [ex_rec 0, ex_rec 1]),
           (py ''appliance_manuals'', [ex_rec 2, ex_rec 3]),
           (py ''appliance_manuals'', [ex_rec 4])]"
      unfolding eq ns st by simp
    from len have l: "\<lceil>real (length ex_recs) / real_of_int (batch_size ex_env2)\<rceil> = 3"
      unfolding eq by simp
    from pos ev l c show ?thesis by (intro conjI)
  qed
qed

section \<open>Claim C10: what \<open>mark\<close> changes\<close>

lemma py_status_filename: "py ''status'' \<noteq> py ''filename''"
  by (simp add: py_def)

lemma mark_tracker:
  "tracker (mark s digest status meta)
     = (tracker s)(digest \<mapsto> mark_entry status meta)"
  by (simp add: mark_def persist_def)

lemma mark_entry_lookup:
  "mark_entry status meta key =
     (case (case meta of None \<Rightarrow> None | Some m \<Rightarrow> m key) of
        Some v \<Rightarrow> Some v
      | None \<Rightarrow> if key = py ''status'' then Some (JStr status) else None)"
  by (auto simp: mark_entry_def map_add_def split: option.splits)

text \<open>
  Claim C10, as amended. \<open>mark\<close> changes the tracker's dict at the given digest only.
  The new record is the one-key dict \<open>{"status": status}\<close> overlaid with \<open>meta\<close>: its
  keys are \<open>"status"\<close> and the keys of \<open>meta\<close>, nothing of the previous record is kept,
  and its status is the argument unless \<open>meta\<close> has a \<open>"status"\<close> key of its own, which
  then takes precedence.
\<close>

theorem mark_replaces_entry:
  "tracker (mark s digest status meta) other
     = (if other = digest then Some (mark_entry status meta) else tracker s other)
   \<and> mark_entry status meta key =
       (case (case meta of None \<Rightarrow> None | Some m \<Rightarrow> m key) of
          Some v \<Rightarrow> Some v
        | None \<Rightarrow> if key = py ''status'' then Some (JStr status) else None)
   \<and> dom (mark_entry status meta)
       = insert (py ''status'') (case meta of None \<Rightarrow> {} | Some m \<Rightarrow> dom m)
   \<and> ((case meta of None \<Rightarrow> True | Some m \<Rightarrow> m (py ''status'') = None) \<longrightarrow>
        status_of (mark s digest status meta) digest = Some (JStr status))"
proof (intro conjI)
  show "tracker (mark s digest status meta) other
     = (if other = digest then Some (mark_entry status meta) else tracker s other)"
    by (simp add: mark_tracker)
  show "mark_entry status meta key =
       (case (case meta of None \<Rightarrow> None | Some m \<Rightarrow> m key) of
          Some v \<Rightarrow> Some v
        | None \<Rightarrow> if key = py ''status'' then Some (JStr status) else None)"
    by (rule mark_entry_lookup)
  show "dom (mark_entry status meta)
       = insert (py ''status'') (case meta of None \<Rightarrow> {} | Some m \<Rightarrow> dom m)"
    by (auto simp: mark_entry_def split: option.splits)
  show "(case meta of None \<Rightarrow> True | Some m \<Rightarrow> m (py ''status'') = None) \<longrightarrow>
        status_of (mark s digest status meta) digest = Some (JStr status)"
    by (auto simp: status_of_def mark_tracker mark_entry_lookup split: option.splits)
qed

theorem mark_replaces_entry_witness:
  "tracker (mark ex_tracked (py ''d1'') (py ''completed'') (Some [py ''filename'' \<mapsto> JStr (py ''a.pdf'')]))
       (py ''d2'') = tracker ex_tracked (py ''d2'')
   \<and> mark_entry (py ''completed'') (Some [py ''filename'' \<mapsto> JStr (py ''a.pdf'')]) (py ''pages'') = None
   \<and> tracker ex_tracked (py ''d1'')
        = Some [py ''status'' \<mapsto> JStr (py ''processing''), py ''pages'' \<mapsto> JInt 3]
   \<and> status_of (mark ex_tracked (py ''d1'') (py ''completed'') (Some [py ''filename'' \<mapsto> JStr (py ''a.pdf'')]))
       (py ''d1'') = Some (JStr (py ''completed''))"
  using mark_replaces_entry [of ex_tracked "py ''d1''" "py ''completed''"
      "Some [py ''filename'' \<mapsto> JStr (py ''a.pdf'')]" "py ''d2''" "py ''pages''"]
  by (simp add: ex_tracked_def ex_state_def py_def)

text \<open>
  Claim C10 as stated fails when \<open>meta\<close> carries a \<open>"status"\<close> key: the record then
  holds the status of \<open>meta\<close>, not the argument.
\<close>

theorem mark_status_key_counterexample:
  "status_of (mark ex_tracked (py ''d1'') (py ''completed'')
                (Some [py ''status'' \<mapsto> JStr (py ''failed'')])) (py ''d1'')
     = Some (JStr (py ''failed''))
   \<and> status_of (mark ex_tracked (py ''d1'') (py ''completed'')
                (Some [py ''status'' \<mapsto> JStr (py ''failed'')])) (py ''d1'')
     \<noteq> Some (JStr (py ''completed''))"
  by (simp add: status_of_def mark_tracker mark_entry_def py_def)

section \<open>Claim C6: the token extractors\<close>

lemma ex_text_parts:
  "findall uw PART_NUMBER_RE ex_text = [py ''60X10074'', py ''ABC-123'']"
  unfolding findall_def ex_text_def PART_NUMBER_RE_def by code_simp

lemma ex_text_models:
  "findall uw MODEL_RE ex_text = [py ''ABC-123/DEF'']"
  unfolding findall_def ex_text_def MODEL_RE_def by code_simp

text \<open>
  Claim C6, as amended. Each extractor returns the matches of its pattern sorted and
  without duplicates. On the specification's test text the model-number extractor
  returns \<open>ABC-123/DEF\<close>; the part-number extractor returns \<open>60X10074\<close> and
  \<open>ABC-123\<close>: \<open>WR\<close> is too short for the pattern's first group, so the match starts
  after the hyphen.
\<close>

theorem extractors_sorted_deduplicated:
  "sorted (extract_part_numbers uw text) \<and> distinct (extract_part_numbers uw text)
   \<and> set (extract_part_numbers uw text) = set (findall uw PART_NUMBER_RE text)
   \<and> sorted (extract_model_numbers uw text) \<and> distinct (extract_model_numbers uw text)
   \<and> set (extract_model_numbers uw text) = set (findall uw MODEL_RE text)
   \<and> extract_part_numbers uw ex_text = [py ''60X10074'', py ''ABC-123'']
   \<and> extract_model_numbers uw ex_text = [py ''ABC-123/DEF'']"
proof -
  have "sorted_list_of_set {py ''60X10074'', py ''ABC-123''} = [py ''60X10074'', py ''ABC-123'']"
    by code_simp
  then show ?thesis
    by (simp add: extract_part_numbers_def extract_model_numbers_def ex_text_parts ex_text_models)
qed

theorem extractors_sorted_deduplicated_witness:
  "sorted (extract_part_numbers (\<lambda>c. False) ex_text)
   \<and> distinct (extract_part_numbers (\<lambda>c. False) ex_text)
   \<and> extract_model_numbers (\<lambda>c. False) ex_text = [py ''ABC-123/DEF'']"
proof -
  note t = extractors_sorted_deduplicated [of "\<lambda>c. False" ex_text]
  from t have a: "sorted (extract_part_numbers (\<lambda>c. False) ex_text)"
    by (rule conjunct1)
  from t have b: "distinct (extract_part_numbers (\<lambda>c. False) ex_text)"
    by (elim conjE)
  from t have c: "extract_model_numbers (\<lambda>c. False) ex_text = [py ''ABC-123/DEF'']"
    by (elim conjE)
  from a b c show ?thesis by (intro conjI)
qed

text \<open>
  Claim C6 as stated fails on that text: no element of the part-number extractor's
  result is \<open>WR-60X10074\<close>.
\<close>

theorem part_number_counterexample:
  "extract_part_numbers (\<lambda>c. False) ex_text = [py ''60X10074'', py ''ABC-123'']
   \<and> py ''WR-60X10074'' \<notin> set (extract_part_numbers (\<lambda>c. False) ex_text)"
  by code_simp

section \<open>What processing a document leaves alone\<close>

lemma pinecone_upsert_frame:
  "tracker (snd (pinecone_upsert env batch s)) = tracker s"
  "state_file (snd (pinecone_upsert env batch s)) = state_file s"
  "dense_embeds (snd (pinecone_upsert env batch s)) = dense_embeds s"
  "sparse_embeds (snd (pinecone_upsert env batch s)) = sparse_embeds s"
  "documents_calls (snd (pinecone_upsert env batch s)) = documents_calls s"
  "documents_table (snd (pinecone_upsert env batch s)) = documents_table s"
  by (simp_all add: pinecone_upsert_def Let_def split: option.splits)

lemma upsert_loop_frame:
  "tracker (snd (upsert_loop env batches s)) = tracker s
   \<and> state_file (snd (upsert_loop env batches s)) = state_file s
   \<and> dense_embeds (snd (upsert_loop env batches s)) = dense_embeds s
   \<and> sparse_embeds (snd (upsert_loop env batches s)) = sparse_embeds s
   \<and> documents_calls (snd (upsert_loop env batches s)) = documents_calls s
   \<and> documents_table (snd (upsert_loop env batches s)) = documents_table s"
proof (induction batches arbitrary: s)
  case Nil
  then show ?case by simp
next
  case (Cons b bs)
  obtain r s' where step: "pinecone_upsert env b s = (r, s')" by (cases "pinecone_upsert env b s")
  with pinecone_upsert_frame [of env b s]
  have fr: "tracker s' = tracker s" "state_file s' = state_file s"
    "dense_embeds s' = dense_embeds s" "sparse_embeds s' = sparse_embeds s"
    "documents_calls s' = documents_calls s" "documents_table s' = documents_table s"
    by simp_all
  show ?case
  proof (cases r)
    case None
    with step Cons.IH [of s'] fr show ?thesis by simp
  next
    case (Some e)
    with step fr show ?thesis by simp
  qed
qed

lemma documents_upsert_frame:
  "tracker (snd (documents_upsert env row s)) = tracker s"
  "state_file (snd (documents_upsert env row s)) = state_file s"
  "upsert_calls (snd (documents_upsert env row s)) = upsert_calls s"
  "vector_index (snd (documents_upsert env row s)) = vector_index s"
  by (simp_all add: documents_upsert_def Let_def split: option.splits)

lemma store_document_frame:
  "tracker (snd (store_document env row recs s)) = tracker s
   \<and> state_file (snd (store_document env row recs s)) = state_file s"
proof (cases "upsert_batches (batch_size env) recs")
  case (Inl e)
  then show ?thesis by (simp add: store_document_def)
next
  case (Inr batches)
  obtain r s' where loop: "upsert_loop env batches s = (r, s')" by (cases "upsert_loop env batches s")
  with upsert_loop_frame [of env batches s]
  have fr: "tracker s' = tracker s" "state_file s' = state_file s" by simp_all
  show ?thesis
    using Inr loop fr
    by (cases r; cases "supabase_client env") (simp_all add: store_document_def documents_upsert_frame)
qed

lemma embed_chunks_frame:
  "tracker (snd (embed_chunks env doc_id a b chunks s)) = tracker s
   \<and> state_file (snd (embed_chunks env doc_id a b chunks s)) = state_file s
   \<and> upsert_calls (snd (embed_chunks env doc_id a b chunks s)) = upsert_calls s
   \<and> vector_index (snd (embed_chunks env doc_id a b chunks s)) = vector_index s
   \<and> documents_calls (snd (embed_chunks env doc_id a b chunks s)) = documents_calls s
   \<and> documents_table (snd (embed_chunks env doc_id a b chunks s)) = documents_table s"
  by (simp add: embed_chunks_def Let_def split: option.splits sum.splits)

lemma process_pdf_frame:
  "tracker (snd (process_pdf env pdf s)) = tracker s
   \<and> state_file (snd (process_pdf env pdf s)) = state_file s"
proof -
  have "tracker (snd (case embed_chunks env doc_id a b chunks s of
                   (Inl e, s') \<Rightarrow> (Some e, s')
                 | (Inr to_upsert, s') \<Rightarrow> store_document env row to_upsert s')) = tracker s
      \<and> state_file (snd (case embed_chunks env doc_id a b chunks s of
                   (Inl e, s') \<Rightarrow> (Some e, s')
                 | (Inr to_upsert, s') \<Rightarrow> store_document env row to_upsert s')) = state_file s"
    for doc_id a b chunks row
  proof -
    obtain r s' where ec: "embed_chunks env doc_id a b chunks s = (r, s')"
      by (cases "embed_chunks env doc_id a b chunks s")
    with embed_chunks_frame [of env doc_id a b chunks s]
    have fr: "tracker s' = tracker s" "state_file s' = state_file s" by simp_all
    show ?thesis
      using ec fr store_document_frame [of env row _ s'] by (cases r) simp_all
  qed
  then show ?thesis
    by (simp add: process_pdf_def Let_def split: sum.splits prod.splits)
qed

lemma process_pdf_tracker: "process_pdf env pdf s = (r, s') \<Longrightarrow> tracker s' = tracker s"
  using process_pdf_frame [of env pdf s] by simp

lemma process_pdf_state_file: "process_pdf env pdf s = (r, s') \<Longrightarrow> state_file s' = state_file s"
  using process_pdf_frame [of env pdf s] by simp

section \<open>Statuses\<close>

lemma status_of_tracker: "tracker s' = tracker s \<Longrightarrow> status_of s' d = status_of s d"
  by (simp add: status_of_def)

lemma status_of_mark_other: "d \<noteq> digest \<Longrightarrow> status_of (mark s digest st meta) d = status_of s d"
  by (simp add: status_of_def mark_tracker)

lemma status_of_mark_filename:
  "status_of (mark s digest st (filename_meta pdf)) digest = Some (JStr st)"
  by (simp add: status_of_def mark_tracker mark_entry_lookup filename_meta_def py_status_filename)

lemma py_statuses_differ:
  "py ''processing'' \<noteq> py ''completed''" "py ''processing'' \<noteq> py ''failed''"
  "py ''completed'' \<noteq> py ''failed''"
  by (simp_all add: py_def)

section \<open>The controller's loop\<close>

lemma ingest_skip:
  "status_of s (digest_of env pdf) = Some (JStr (py ''completed'')) \<Longrightarrow>
     ingest env (pdf # pdfs) s = ingest env pdfs s"
  by (simp add: Let_def)

lemma ingest_step:
  "status_of s (digest_of env pdf) \<noteq> Some (JStr (py ''completed'')) \<Longrightarrow>
     ingest env (pdf # pdfs) s =
       (case process_pdf env pdf (mark s (digest_of env pdf) (py ''processing'') (filename_meta pdf)) of
          (Some e, s') \<Rightarrow> (Some e, s')
        | (None, s') \<Rightarrow>
            ingest env pdfs (mark s' (digest_of env pdf) (py ''completed'') (filename_meta pdf)))"
  by (simp add: Let_def)

lemma ingest_append:
  "ingest env (xs @ ys) s =
     (case ingest env xs s of (Some e, s') \<Rightarrow> (Some e, s') | (None, s') \<Rightarrow> ingest env ys s')"
proof (induction xs arbitrary: s)
  case Nil
  then show ?case by simp
next
  case (Cons pdf xs)
  show ?case
  proof (cases "status_of s (digest_of env pdf) = Some (JStr (py ''completed''))")
    case True
    then show ?thesis using Cons.IH [of s] by (simp add: Let_def)
  next
    case False
    obtain r s' where p: "process_pdf env pdf
        (mark s (digest_of env pdf) (py ''processing'') (filename_meta pdf)) = (r, s')"
      by (cases "process_pdf env pdf
        (mark s (digest_of env pdf) (py ''processing'') (filename_meta pdf))")
    show ?thesis
      using False p Cons.IH [of "mark s' (digest_of env pdf) (py ''completed'') (filename_meta pdf)"]
      by (cases r) (simp_all add: Let_def)
  qed
qed

text \<open>A run writes no status but \<open>processing\<close> and \<open>completed\<close>.\<close>

lemma ingest_statuses:
  "status_of (snd (ingest env pdfs s)) d = status_of s d
   \<or> status_of (snd (ingest env pdfs s)) d = Some (JStr (py ''processing''))
   \<or> status_of (snd (ingest env pdfs s)) d = Some (JStr (py ''completed''))"
proof (induction pdfs arbitrary: s)
  case Nil
  then show ?case by simp
next
  case (Cons pdf pdfs)
  let ?dg = "digest_of env pdf"
  show ?case
  proof (cases "status_of s ?dg = Some (JStr (py ''completed''))")
    case True
    then show ?thesis using Cons.IH [of s] by (simp add: ingest_skip)
  next
    case False
    let ?s1 = "mark s ?dg (py ''processing'') (filename_meta pdf)"
    obtain r s' where p: "process_pdf env pdf ?s1 = (r, s')" by (cases "process_pdf env pdf ?s1")
    from process_pdf_tracker [OF p] have st': "status_of s' d = status_of ?s1 d"
      by (rule status_of_tracker)
    have s1: "status_of ?s1 d = status_of s d \<or> status_of ?s1 d = Some (JStr (py ''processing''))"
      by (cases "d = ?dg") (simp_all add: status_of_mark_other status_of_mark_filename)
    show ?thesis
    proof (cases r)
      case (Some e)
      with False p st' s1 show ?thesis by (auto simp: ingest_step)
    next
      case None
      let ?s2 = "mark s' ?dg (py ''completed'') (filename_meta pdf)"
      have s2: "status_of ?s2 d = status_of s d \<or> status_of ?s2 d = Some (JStr (py ''processing''))
          \<or> status_of ?s2 d = Some (JStr (py ''completed''))"
        using st' s1 by (cases "d = ?dg") (auto simp: status_of_mark_other status_of_mark_filename)
      from None False p have "ingest env (pdf # pdfs) s = ingest env pdfs ?s2"
        by (simp add: ingest_step)
      with Cons.IH [of ?s2] s2 show ?thesis by auto
    qed
  qed
qed

text \<open>A digest recorded as completed stays so.\<close>

lemma ingest_keeps_completed:
  "status_of s d = Some (JStr (py ''completed'')) \<Longrightarrow>
     status_of (snd (ingest env pdfs s)) d = Some (JStr (py ''completed''))"
proof (induction pdfs arbitrary: s)
  case Nil
  then show ?case by simp
next
  case (Cons pdf pdfs)
  let ?dg = "digest_of env pdf"
  show ?case
  proof (cases "status_of s ?dg = Some (JStr (py ''completed''))")
    case True
    then show ?thesis using Cons by (simp add: ingest_skip)
  next
    case False
    with Cons.prems have ne: "d \<noteq> ?dg" by auto
    let ?s1 = "mark s ?dg (py ''processing'') (filename_meta pdf)"
    obtain r s' where p: "process_pdf env pdf ?s1 = (r, s')" by (cases "process_pdf env pdf ?s1")
    from process_pdf_tracker [OF p] have "status_of s' d = status_of ?s1 d"
      by (rule status_of_tracker)
    with ne Cons.prems have st': "status_of s' d = Some (JStr (py ''completed''))"
      by (simp add: status_of_mark_other)
    show ?thesis
    proof (cases r)
      case (Some e)
      with False p st' show ?thesis by (simp add: ingest_step)
    next
      case None
      let ?s2 = "mark s' ?dg (py ''completed'') (filename_meta pdf)"
      from ne st' have "status_of ?s2 d = Some (JStr (py ''completed''))"
        by (simp add: status_of_mark_other)
      from Cons.IH [OF this] None False p show ?thesis by (simp add: ingest_step)
    qed
  qed
qed

text \<open>A run that returns has every enumerated digest completed.\<close>

lemma ingest_completes_all:
  "fst (ingest env pdfs s) = None \<Longrightarrow>
     \<forall>pdf\<in>set pdfs. status_of (snd (ingest env pdfs s)) (digest_of env pdf)
        = Some (JStr (py ''completed''))"
proof (induction pdfs arbitrary: s)
  case Nil
  then show ?case by simp
next
  case (Cons pdf pdfs)
  let ?dg = "digest_of env pdf"
  show ?case
  proof (cases "status_of s ?dg = Some (JStr (py ''completed''))")
    case True
    then have eq: "ingest env (pdf # pdfs) s = ingest env pdfs s" by (rule ingest_skip)
    with Cons.prems have "fst (ingest env pdfs s) = None" by simp
    from Cons.IH [OF this] ingest_keeps_completed [OF True, of env pdfs] eq
    show ?thesis by simp
  next
    case False
    let ?s1 = "mark s ?dg (py ''processing'') (filename_meta pdf)"
    obtain r s' where p: "process_pdf env pdf ?s1 = (r, s')" by (cases "process_pdf env pdf ?s1")
    let ?s2 = "mark s' ?dg (py ''completed'') (filename_meta pdf)"
    from Cons.prems False p have r: "r = None" by (cases r) (simp_all add: ingest_step)
    with False p have eq: "ingest env (pdf # pdfs) s = ingest env pdfs ?s2"
      by (simp add: ingest_step)
    with Cons.prems have "fst (ingest env pdfs ?s2) = None" by simp
    from Cons.IH [OF this]
      ingest_keeps_completed [of ?s2 ?dg env pdfs] eq
    show ?thesis by (simp add: status_of_mark_filename)
  qed
qed

text \<open>Over digests that are all completed the loop does nothing.\<close>

lemma ingest_all_completed:
  "\<forall>pdf\<in>set pdfs. status_of s (digest_of env pdf) = Some (JStr (py ''completed'')) \<Longrightarrow>
     ingest env pdfs s = (None, s)"
  by (induction pdfs) (simp_all add: Let_def)

text \<open>The tracker's dict and the checkpoint file agree after every run.\<close>

lemma load_fixed_iff:
  "load s = s \<longleftrightarrow> tracker s = (case state_file s of None \<Rightarrow> Map.empty | Some data \<Rightarrow> data)"
proof
  assume "load s = s"
  then have "tracker (load s) = tracker s" by simp
  then show "tracker s = (case state_file s of None \<Rightarrow> Map.empty | Some data \<Rightarrow> data)"
    by (simp add: load_def)
next
  assume "tracker s = (case state_file s of None \<Rightarrow> Map.empty | Some data \<Rightarrow> data)"
  then have "load s = s\<lparr>tracker := tracker s\<rparr>" by (simp add: load_def)
  then show "load s = s" by simp
qed

lemma load_load: "load (load s) = load s"
  by (simp add: load_fixed_iff) (simp add: load_def)

lemma load_mark: "load (mark s d st meta) = mark s d st meta"
  by (simp add: load_fixed_iff) (simp add: mark_def persist_def)

lemma load_process_pdf:
  assumes "load s = s" and "process_pdf env pdf s = (r, s')"
  shows "load s' = s'"
  using assms process_pdf_tracker [OF assms(2)] process_pdf_state_file [OF assms(2)]
  by (simp add: load_fixed_iff)

lemma load_ingest: "load s = s \<Longrightarrow> load (snd (ingest env pdfs s)) = snd (ingest env pdfs s)"
proof (induction pdfs arbitrary: s)
  case Nil
  then show ?case by simp
next
  case (Cons pdf pdfs)
  let ?dg = "digest_of env pdf"
  show ?case
  proof (cases "status_of s ?dg = Some (JStr (py ''completed''))")
    case True
    then show ?thesis using Cons by (simp add: ingest_skip)
  next
    case False
    let ?s1 = "mark s ?dg (py ''processing'') (filename_meta pdf)"
    obtain r s' where p: "process_pdf env pdf ?s1 = (r, s')" by (cases "process_pdf env pdf ?s1")
    have s': "load s' = s'" using load_mark p by (rule load_process_pdf)
    show ?thesis
    proof (cases r)
      case (Some e)
      with False p s' show ?thesis by (simp add: ingest_step)
    next
      case None
      with False p Cons.IH [OF load_mark, of s' ?dg "py ''completed''" "filename_meta pdf"]
      show ?thesis by (simp add: ingest_step)
    qed
  qed
qed

section \<open>Claim C3: a second run\<close>

text \<open>
  Claim C3, as amended. When a run over the enumerated files returns, every one of
  their digests
  is recorded as completed, and a second run, which loads the checkpoint file the
  first one left, returns leaving everything as it was: the tracker's dict and the
  checkpoint file, the vector index and the \<open>documents\<close> table, and the counts of
  embedder calls and the list of upsert calls, so that it makes no such call. A file
  whose digest is recorded as completed is skipped, whatever the state.
\<close>

theorem second_run_does_nothing:
  assumes "fst (run_ingestion env pdfs s) = None"
  shows "run_ingestion env pdfs (snd (run_ingestion env pdfs s))
           = (None, snd (run_ingestion env pdfs s))
         \<and> (\<forall>pdf\<in>set pdfs.
               status_of (snd (run_ingestion env pdfs s)) (digest_of env pdf)
                 = Some (JStr (py ''completed'')))
         \<and> (\<forall>pdf rest s'.
               status_of s' (digest_of env pdf) = Some (JStr (py ''completed''))
                 \<longrightarrow> ingest env (pdf # rest) s' = ingest env rest s')"
proof (intro conjI)
  let ?s1 = "snd (run_ingestion env pdfs s)"
  from assms have ok: "fst (ingest env pdfs (load s)) = None"
    by (simp add: run_ingestion_def)
  have all: "\<forall>pdf\<in>set pdfs. status_of ?s1 (digest_of env pdf) = Some (JStr (py ''completed''))"
    using ingest_completes_all [OF ok] by (simp add: run_ingestion_def)
  then show "\<forall>pdf\<in>set pdfs. status_of ?s1 (digest_of env pdf) = Some (JStr (py ''completed''))" .
  have "load ?s1 = ?s1"
    using load_ingest [OF load_load, of env pdfs s] by (simp add: run_ingestion_def)
  then have "run_ingestion env pdfs ?s1 = ingest env pdfs ?s1"
    by (simp add: run_ingestion_def)
  also from all have "\<dots> = (None, ?s1)" by (rule ingest_all_completed)
  finally show "run_ingestion env pdfs ?s1 = (None, ?s1)" .
  show "\<forall>pdf rest s'.
               status_of s' (digest_of env pdf) = Some (JStr (py ''completed''))
                 \<longrightarrow> ingest env (pdf # rest) s' = ingest env rest s'"
    by (simp add: ingest_skip)
qed

text \<open>Three files, two of them with the same bytes: one embedding, one upsert, then none.\<close>

lemma ex_run_returns: "fst (run_ingestion ex_env [pdf_good, pdf_copy, pdf_blank] ex_state) = None"
  by code_simp

lemma ex_run_counts:
  "dense_embeds (snd (run_ingestion ex_env [pdf_good, pdf_copy, pdf_blank] ex_state)) = 1
   \<and> length (upsert_calls (snd (run_ingestion ex_env [pdf_good, pdf_copy, pdf_blank] ex_state))) = 1"
  by code_simp

theorem second_run_does_nothing_witness:
  "fst (run_ingestion ex_env [pdf_good, pdf_copy, pdf_blank] ex_state) = None
   \<and> run_ingestion ex_env [pdf_good, pdf_copy, pdf_blank]
         (snd (run_ingestion ex_env [pdf_good, pdf_copy, pdf_blank] ex_state))
       = (None, snd (run_ingestion ex_env [pdf_good, pdf_copy, pdf_blank] ex_state))
   \<and> dense_embeds (snd (run_ingestion ex_env [pdf_good, pdf_copy, pdf_blank] ex_state)) = 1
   \<and> length (upsert_calls (snd (run_ingestion ex_env [pdf_good, pdf_copy, pdf_blank] ex_state))) = 1"
proof -
  note t = second_run_does_nothing [OF ex_run_returns]
  from t have "run_ingestion ex_env [pdf_good, pdf_copy, pdf_blank]
         (snd (run_ingestion ex_env [pdf_good, pdf_copy, pdf_blank] ex_state))
       = (None, snd (run_ingestion ex_env [pdf_good, pdf_copy, pdf_blank] ex_state))"
    by (rule conjunct1)
  with ex_run_returns ex_run_counts show ?thesis by (intro conjI) simp_all
qed

text \<open>
  Claim C3 as stated, for any first run, fails: when the first run ends with an
  exception (here the index refuses the first upsert call), the digest is left as
  \<open>processing\<close>, and the second run processes the file again, with a second embedding
  call and a second upsert call.
\<close>

theorem second_run_after_failure_counterexample:
  "fst (run_ingestion ex_env_flaky [pdf_good] ex_state) = Some PineconeError
   \<and> status_of (snd (run_ingestion ex_env_flaky [pdf_good] ex_state))
        (digest_of ex_env_flaky pdf_good) = Some (JStr (py ''processing''))
   \<and> dense_embeds (snd (run_ingestion ex_env_flaky [pdf_good] ex_state)) = 1
   \<and> length (upsert_calls (snd (run_ingestion ex_env_flaky [pdf_good] ex_state))) = 1
   \<and> fst (run_ingestion ex_env_flaky [pdf_good]
             (snd (run_ingestion ex_env_flaky [pdf_good] ex_state))) = None
   \<and> dense_embeds (snd (run_ingestion ex_env_flaky [pdf_good]
             (snd (run_ingestion ex_env_flaky [pdf_good] ex_state)))) = 2
   \<and> length (upsert_calls (snd (run_ingestion ex_env_flaky [pdf_good]
             (snd (run_ingestion ex_env_flaky [pdf_good] ex_state))))) = 2"
  by code_simp

section \<open>Claim C1: a document that fails\<close>

text \<open>
  Claim C1, as amended. When the files before a document have been dealt with and
  processing the document raises, \<open>ingest\<close> ends with that exception whatever files
  follow: they are not looked at. The document's digest is left recorded as
  \<open>processing\<close>, never as \<open>completed\<close>; and no run writes the status \<open>failed\<close>: a digest
  recorded as failed afterwards was so before.
\<close>

theorem failed_document_ends_run:
  assumes "ingest env done s = (None, s1)"
    and "status_of s1 (digest_of env pdf) \<noteq> Some (JStr (py ''completed''))"
    and "process_pdf env pdf (mark s1 (digest_of env pdf) (py ''processing'') (filename_meta pdf))
           = (Some e, s2)"
  shows "ingest env (done @ pdf # rest) s = (Some e, s2)
         \<and> status_of s2 (digest_of env pdf) = Some (JStr (py ''processing''))
         \<and> tracker s2
             = (tracker s1)(digest_of env pdf \<mapsto> mark_entry (py ''processing'') (filename_meta pdf))
         \<and> (\<forall>d. status_of s2 d = Some (JStr (py ''failed''))
                 \<longrightarrow> status_of s d = Some (JStr (py ''failed'')))"
proof (intro conjI allI impI)
  let ?dg = "digest_of env pdf"
  let ?m = "mark s1 ?dg (py ''processing'') (filename_meta pdf)"
  from assms(2,3) have "ingest env (pdf # rest) s1 = (Some e, s2)"
    by (simp add: ingest_step)
  with assms(1) show run: "ingest env (done @ pdf # rest) s = (Some e, s2)"
    by (simp add: ingest_append)
  from process_pdf_tracker [OF assms(3)] have tr: "tracker s2 = tracker ?m" .
  then show "tracker s2 = (tracker s1)(?dg \<mapsto> mark_entry (py ''processing'') (filename_meta pdf))"
    by (simp add: mark_tracker)
  from tr have "status_of s2 ?dg = status_of ?m ?dg" by (rule status_of_tracker)
  then show "status_of s2 ?dg = Some (JStr (py ''processing''))"
    by (simp add: status_of_mark_filename)
  fix d assume f: "status_of s2 d = Some (JStr (py ''failed''))"
  from run have "s2 = snd (ingest env (done @ pdf # rest) s)" by simp
  with ingest_statuses [of env "done @ pdf # rest" s d] f
  show "status_of s d = Some (JStr (py ''failed''))"
    using py_statuses_differ by auto
qed

lemma ex_before_bad:
  "fst (ingest ex_env [pdf_good] ex_state) = None
   \<and> status_of (snd (ingest ex_env [pdf_good] ex_state)) (digest_of ex_env pdf_bad)
        \<noteq> Some (JStr (py ''completed''))
   \<and> fst (process_pdf ex_env pdf_bad
          (mark (snd (ingest ex_env [pdf_good] ex_state)) (digest_of ex_env pdf_bad)
             (py ''processing'') (filename_meta pdf_bad))) = Some FitzError"
  by code_simp

theorem failed_document_ends_run_witness:
  "ingest ex_env [pdf_good] ex_state = (None, snd (ingest ex_env [pdf_good] ex_state))
   \<and> status_of (snd (ingest ex_env [pdf_good] ex_state)) (digest_of ex_env pdf_bad)
        \<noteq> Some (JStr (py ''completed''))
   \<and> fst (ingest ex_env ([pdf_good] @ pdf_bad # [pdf_blank]) ex_state) = Some FitzError
   \<and> status_of (snd (ingest ex_env ([pdf_good] @ pdf_bad # [pdf_blank]) ex_state))
        (digest_of ex_env pdf_bad) = Some (JStr (py ''processing''))"
proof -
  let ?s1 = "snd (ingest ex_env [pdf_good] ex_state)"
  let ?m = "mark ?s1 (digest_of ex_env pdf_bad) (py ''processing'') (filename_meta pdf_bad)"
  from ex_before_bad have a: "ingest ex_env [pdf_good] ex_state = (None, ?s1)"
    by (simp add: prod_eq_iff)
  from ex_before_bad
  have b: "status_of ?s1 (digest_of ex_env pdf_bad) \<noteq> Some (JStr (py ''completed''))"
    by (elim conjE)
  from ex_before_bad
  have c: "process_pdf ex_env pdf_bad ?m = (Some FitzError, snd (process_pdf ex_env pdf_bad ?m))"
    by (simp add: prod_eq_iff)
  note t = failed_document_ends_run [OF a b c, of "[pdf_blank]"]
  from t have r: "ingest ex_env ([pdf_good] @ pdf_bad # [pdf_blank]) ex_state
      = (Some FitzError, snd (process_pdf ex_env pdf_bad ?m))"
    by (rule conjunct1)
  from t have "status_of (snd (process_pdf ex_env pdf_bad ?m)) (digest_of ex_env pdf_bad)
      = Some (JStr (py ''processing''))"
    by (elim conjE)
  with r a b show ?thesis by simp
qed

text \<open>
  Claim C1 as stated fails: the first file cannot be opened, the run ends with the
  exception, the file's status is \<open>processing\<close> and not \<open>failed\<close>, and the second
  file is neither recorded nor upserted.
\<close>

theorem failed_document_counterexample:
  "fst (run_ingestion ex_env [pdf_bad, pdf_good] ex_state) = Some FitzError
   \<and> status_of (snd (run_ingestion ex_env [pdf_bad, pdf_good] ex_state))
        (digest_of ex_env pdf_bad) = Some (JStr (py ''processing''))
   \<and> status_of (snd (run_ingestion ex_env [pdf_bad, pdf_good] ex_state))
        (digest_of ex_env pdf_bad) \<noteq> Some (JStr (py ''failed''))
   \<and> tracker (snd (run_ingestion ex_env [pdf_bad, pdf_good] ex_state))
        (digest_of ex_env pdf_good) = None
   \<and> upsert_calls (snd (run_ingestion ex_env [pdf_bad, pdf_good] ex_state)) = []"
  by code_simp

section \<open>What a successful \<open>_process_pdf\<close> has done\<close>










section \<open>Claims C5 and C8: what \<open>retrieve\<close> returns\<close>

text \<open>
  The data \<open>retrieve\<close> hands to the run names the embedder's text only, so the ranker's
  query has no value and every call ends with \<open>ValueError\<close>, whatever the components
  would do.
\<close>

lemma retrieve_data_has_no_ranker_query:
  "data_input [(py ''text_embedder'', [(py ''text'', query)])] (py ''ranker'') (py ''query'') = None"
  by (simp add: data_input_def py_def)

lemma retrieve_raises: "retrieve rc top_k query = Inl ValueError"
  by (simp add: retrieve_def pipeline_run_def retrieve_data_has_no_ranker_query
      split: option.splits)

text \<open>
  Claim C5 at a failing input: the store holds nothing for the query, so the claim
  promises the empty sequence; \<open>retrieve\<close> raises, as it does when the store cannot be
  reached, and the caller cannot tell the two apart.
\<close>

theorem retrieve_empty_store_raises:
  "text_embedder ex_rc (py ''a'') = Inr 1
   \<and> retriever ex_rc 1 (2 * 2) = Inr []
   \<and> retrieve ex_rc 2 (py ''a'') = Inl ValueError
   \<and> text_embedder ex_rc [] = Inr 0
   \<and> retriever ex_rc 0 (2 * 2) = Inl StoreUnreachable
   \<and> retrieve ex_rc 2 [] = Inl ValueError"
  by (simp add: retrieve_raises) (simp add: ex_rc_def py_def)

text \<open>
  Claim C8 at a failing input: three candidates are there to be ranked and \<open>K = 1\<close>;
  \<open>retrieve\<close> returns no sequence at all.
\<close>

theorem retrieve_ranked_raises:
  "text_embedder ex_rc (py ''abc'') = Inr 3
   \<and> retriever ex_rc 3 (1 * 2) = Inr (take 2 ex_docs)
   \<and> retrieve ex_rc 1 (py ''abc'') = Inl ValueError"
  by (simp add: retrieve_raises) (simp add: ex_rc_def py_def)

section \<open>Claim C2: when a digest becomes completed\<close>







section \<open>Claim C4: the ids of the records\<close>





lemma issued_nothing:
  "upsert_calls s' = upsert_calls s \<Longrightarrow>
     concat (map snd (drop (length (upsert_calls s)) (upsert_calls s'))) = []"
  by simp







end
